theory Spec2Isabelle
  imports Main
begin

section \<open>Manager of the openpilot process fleet: data model\<close>

text \<open>
  The theory embeds \<^verbatim>\<open>selfdrive/manager/manager.py\<close>. The manager is an effectful
  program; its effects are threaded through a \<open>world\<close> record (the parameter store, the
  process environment, the table of managed processes) that also keeps the list of calls
  made to the collaborators, in the order the source makes them.
\<close>

datatype ParamKeyType =
  CLEAR_ON_MANAGER_START | CLEAR_ON_ONROAD_TRANSITION | CLEAR_ON_OFFROAD_TRANSITION | DEVELOPMENT_ONLY

text \<open>The exceptions of the source. \<open>SystemExit\<close> is the only one that is not a subclass
  of Python's \<open>Exception\<close>.\<close>

datatype exn = Exception string | ValueError string | KeyError string | SystemExit int

fun is_Exception :: "exn \<Rightarrow> bool" where
  "is_Exception (SystemExit c) = False"
| "is_Exception e = True"

text \<open>A \<open>ManagedProcess\<close> as the manager sees it: its name and its \<open>proc\<close> attribute, which is
  \<open>None\<close> before a process object exists and otherwise answers \<open>is_alive()\<close>.\<close>

record managed_process =
  pname :: string
  proc :: "bool option"

datatype event =
    SetTime
  | Bootlog
  | ClearAll ParamKeyType
  | Put string string
  | Print string
  | Register
  | SentryInit
  | BindGlobal string
  | RemoveErrorTxt
  | RemovePrebuilt
  | ModelSwitcher
  | Start string
  | Prepare string
  | Stop string bool
  | InstallSigterm
  | Bind string
  | NewSubMaster
  | NewPubMaster
  | WriteOnroadParams bool
  | EnsureRunning bool "string list"
  | SmUpdate
  | Send "(string \<times> bool) list"
  | Info string
  | Debug string
  | Warning string
  | PrintExc exn
  | CaptureException exn
  | Uninstall
  | Reboot
  | Shutdown

record world =
  params :: "string \<rightharpoonup> string"
  environ :: "string \<rightharpoonup> string"
  managed_processes :: "managed_process list"
  trace :: "event list"

datatype mkdir_result = Created | FileExistsError | PermissionError

text \<open>
  What the manager reads from its host and from modules outside this file: constants and
  version information, the results of the calls it makes during start-up, and the
  collaborators whose code lives elsewhere (the key table of \<open>Params\<close>, \<open>write_onroad_params\<close>,
  \<open>ensure_running\<close> and the methods of \<open>ManagedProcess\<close>), taken as parameters.
\<close>

record host =
  key_flags :: "string \<Rightarrow> ParamKeyType \<Rightarrow> bool"
  PC :: bool
  is_release_branch :: bool
  is_tested_branch :: bool
  is_dirty :: bool
  get_version :: string
  terms_version :: string
  training_version :: string
  get_commit :: string
  get_short_branch :: string
  get_origin :: string
  personality_standard :: string
  UNREGISTERED_DONGLE_ID :: string
  utcnow_isoformat :: string
  register_result :: "string option"
  shm_mkdir :: mkdir_result
  error_txt_isfile :: bool
  prebuilt_exists :: bool
  proc_version :: "string option"
  write_onroad_store :: "bool \<Rightarrow> (string \<rightharpoonup> string) \<Rightarrow> (string \<rightharpoonup> string)"
  ensure_running_procs ::
    "bool \<Rightarrow> (string \<rightharpoonup> string) \<Rightarrow> string \<Rightarrow> string list \<Rightarrow> managed_process list \<Rightarrow> managed_process list"
  start_proc :: "managed_process \<Rightarrow> managed_process"
  prepare_proc :: "managed_process \<Rightarrow> managed_process"
  stop_proc :: "bool \<Rightarrow> managed_process \<Rightarrow> managed_process"

section \<open>The parameter store\<close>

definition emit :: "event \<Rightarrow> world \<Rightarrow> world" where
  "emit e w = w\<lparr>trace := trace w @ [e]\<rparr>"

definition params_get :: "world \<Rightarrow> string \<Rightarrow> string option" where
  "params_get w k = params w k"

definition params_put :: "string \<Rightarrow> string \<Rightarrow> world \<Rightarrow> world" where
  "params_put k v w = emit (Put k v) (w\<lparr>params := (params w)(k \<mapsto> v)\<rparr>)"

text \<open>Modelled from the spec: the \<open>Params\<close> class is not part of this file; the spec gives
  \<open>getBool(key) -> bool\<close>. Booleans are kept as the texts \<open>1\<close> and \<open>0\<close>, the values the
  default table below uses for its flags: a key reads true when its value is the text \<open>1\<close>,
  and an unset key reads false.\<close>

definition params_get_bool :: "world \<Rightarrow> string \<Rightarrow> bool" where
  "params_get_bool w k = (params w k = Some ''1'')"

definition params_put_bool :: "string \<Rightarrow> bool \<Rightarrow> world \<Rightarrow> world" where
  "params_put_bool k b w = params_put k (if b then ''1'' else ''0'') w"

text \<open>Modelled from the spec: \<open>clearAll(category)\<close> removes exactly the keys tagged with the
  category and leaves every other key as it is. The tags are the host's \<open>key_flags\<close>.\<close>

definition params_clear_all :: "host \<Rightarrow> ParamKeyType \<Rightarrow> world \<Rightarrow> world" where
  "params_clear_all h t w =
     emit (ClearAll t) (w\<lparr>params := (\<lambda>k. if key_flags h k t then None else params w k)\<rparr>)"

section \<open>Text helpers of the Python runtime\<close>

text \<open>\<open>s.split(sep)\<close> for a one-character separator.\<close>

fun split_on :: "char \<Rightarrow> string \<Rightarrow> string list" where
  "split_on c [] = [[]]"
| "split_on c (x # xs) =
     (if x = c then [] # split_on c xs
      else (case split_on c xs of [] \<Rightarrow> [[x]] | y # ys \<Rightarrow> (x # y) # ys))"

text \<open>\<open>needle in haystack\<close> on texts.\<close>

fun starts_with :: "string \<Rightarrow> string \<Rightarrow> bool" where
  "starts_with [] ys = True"
| "starts_with (x # xs) [] = False"
| "starts_with (x # xs) (y # ys) = (x = y \<and> starts_with xs ys)"

fun contains :: "string \<Rightarrow> string \<Rightarrow> bool" where
  "contains needle [] = (needle = [])"
| "contains needle (y # ys) = (starts_with needle (y # ys) \<or> contains needle ys)"

text \<open>\<open>int(s)\<close> in base ten on ASCII text: surrounding white space (tab, line feed,
  vertical tab, form feed, carriage return, space) is dropped, one sign is allowed, single
  underscores may separate digits, and a text of more than 4300 digits is refused.
  \<open>None\<close> stands for \<open>ValueError\<close>.\<close>

definition is_space :: "char \<Rightarrow> bool" where
  "is_space c = (c \<in> set [CHR 0x09, CHR 0x0A, CHR 0x0B, CHR 0x0C, CHR 0x0D, CHR 0x20])"

definition strip :: "string \<Rightarrow> string" where
  "strip s = rev (dropWhile is_space (rev (dropWhile is_space s)))"

definition digit_val :: "char \<Rightarrow> nat option" where
  "digit_val c = map_of (zip ''0123456789'' [0, 1, 2, 3, 4, 5, 6, 7, 8, 9]) c"

fun digits_val :: "nat \<Rightarrow> string \<Rightarrow> nat option" where
  "digits_val acc [] = Some acc"
| "digits_val acc (c # cs) =
     (if c = CHR ''_'' then
        (case cs of [] \<Rightarrow> None
         | d # ds \<Rightarrow> if digit_val d = None then None else digits_val acc cs)
      else (case digit_val c of None \<Rightarrow> None | Some d \<Rightarrow> digits_val (acc * 10 + d) cs))"

definition py_nat :: "string \<Rightarrow> nat option" where
  "py_nat s =
     (case s of
        [] \<Rightarrow> None
      | c # cs \<Rightarrow>
          if digit_val c = None then None
          else if length (filter (\<lambda>d. d \<noteq> CHR ''_'') s) > 4300 then None
          else digits_val 0 s)"

definition py_int :: "string \<Rightarrow> int option" where
  "py_int s =
     (case strip s of [] \<Rightarrow> None
      | c # r \<Rightarrow>
          if c = CHR ''-'' then map_option (\<lambda>n. - int n) (py_nat r)
          else if c = CHR ''+'' then map_option int (py_nat r)
          else map_option int (py_nat (c # r)))"

section \<open>manager\_init\<close>

text \<open>A step of the start-up either returns (\<open>None\<close>) or raises; the world carries what was
  done up to that point.\<close>

type_synonym result = "world \<times> exn option"

fun and_then :: "result \<Rightarrow> (world \<Rightarrow> result) \<Rightarrow> result" where
  "and_then (w, None) f = f w"
| "and_then (w, Some e) f = (w, Some e)"

definition default_params :: "host \<Rightarrow> (string \<times> string) list" where
  "default_params h =
     [
      (''CompletedTrainingVersion'', ''0''), (''DisengageOnAccelerator'', ''0''),
      (''GsmMetered'', ''1''), (''HasAcceptedTerms'', ''0''), (''LanguageSetting'', ''main_en''),
      (''OpenpilotEnabledToggle'', ''1''), (''LongitudinalPersonality'', personality_standard h),
      (''ShowDebugUI'', ''0''), (''ShowDateTime'', ''1''), (''ShowHudMode'', ''4''),
      (''ShowSteerRotate'', ''1''), (''ShowPathEnd'', ''1''), (''ShowAccelRpm'', ''1''),
      (''ShowTpms'', ''1''), (''ShowSteerMode'', ''2''), (''ShowDeviceState'', ''1''),
      (''ShowConnInfo'', ''1''), (''ShowLaneInfo'', ''1''), (''ShowBlindSpot'', ''1''),
      (''ShowGapInfo'', ''1''), (''ShowDmInfo'', ''1''), (''ShowRadarInfo'', ''1''),
      (''MixRadarInfo'', ''0''), (''ShowZOffset'', ''122''), (''ShowPathMode'', ''9''),
      (''ShowPathColor'', ''12''), (''ShowPathModeCruiseOff'', ''0''),
      (''ShowPathColorCruiseOff'', ''19''), (''ShowPathModeLane'', ''12''),
      (''ShowPathColorLane'', ''13''), (''ShowPathWidth'', ''100''), (''ShowPlotMode'', ''0''),
      (''AutoResumeFromGasSpeed'', ''0''), (''AutoCancelFromGasMode'', ''0''),
      (''AutoCruiseControl'', ''0''), (''MapboxStyle'', ''0''), (''AutoCurveSpeedCtrlUse'', ''0''),
      (''AutoCurveSpeedFactor'', ''100''), (''AutoCurveSpeedFactorIn'', ''50''),
      (''AutoTurnControl'', ''0''), (''AutoTurnControlSpeedLaneChange'', ''60''),
      (''AutoTurnControlSpeedTurn'', ''20''), (''AutoTurnControlTurnEnd'', ''6''),
      (''AutoNaviSpeedCtrlEnd'', ''6''), (''AutoNaviSpeedBumpTime'', ''1''),
      (''AutoNaviSpeedBumpSpeed'', ''35''), (''AutoNaviSpeedSafetyFactor'', ''105''),
      (''AutoNaviSpeedDecelRate'', ''80''), (''AutoResumeFromBrakeReleaseTrafficSign'', ''0''),
      (''StartAccelApply'', ''0''), (''StopAccelApply'', ''50''), (''StoppingAccel'', ''-80''),
      (''AutoSpeedUptoRoadSpeedLimit'', ''100''), (''AChangeCost'', ''200''),
      (''AChangeCostStart'', ''40''), (''ALeadTau'', ''150''), (''ALeadTauStart'', ''50''),
      (''TrafficStopMode'', ''1''), (''CruiseButtonMode'', ''0''), (''CruiseSpeedUnit'', ''10''),
      (''MyDrivingMode'', ''3''), (''MySafeModeFactor'', ''60''),
      (''LiveSteerRatioApply'', ''100''), (''MyEcoModeFactor'', ''80''),
      (''CruiseMaxVals1'', ''160''), (''CruiseMaxVals2'', ''120''), (''CruiseMaxVals3'', ''100''),
      (''CruiseMaxVals4'', ''80''), (''CruiseMaxVals5'', ''70''), (''CruiseMaxVals6'', ''60''),
      (''CruiseSpeedMin'', ''10''), (''LongitudinalTuningKpV'', ''100''),
      (''LongitudinalTuningKiV'', ''0''), (''LongitudinalTuningKf'', ''100''),
      (''LongitudinalActuatorDelayUpperBound'', ''50''),
      (''LongitudinalActuatorDelayLowerBound'', ''50''), (''EnableRadarTracks'', ''0''),
      (''SccConnectedBus2'', ''0''), (''SoundVolumeAdjust'', ''100''),
      (''SoundVolumeAdjustEngage'', ''10''), (''TFollowSpeedAdd'', ''0''),
      (''TFollowSpeedAddM'', ''0''), (''SoftHoldMode'', ''0''), (''CruiseEcoControl'', ''4''),
      (''UseLaneLineSpeed'', ''0''), (''AdjustLaneOffset'', ''0''), (''AdjustCurveOffset'', ''0''),
      (''UseModelPath'', ''0''), (''PathOffset'', ''0''), (''LateralTorqueCustom'', ''0''),
      (''LateralTorqueAccelFactor'', ''2500''), (''LateralTorqueFriction'', ''100''),
      (''SteerActuatorDelay'', ''40''), (''CruiseOnDist'', ''0''), (''SteerRatioApply'', ''0''),
      (''StartRecord'', ''0''), (''StopRecord'', ''0'')
     ] @ (if \<not> PC h then [(''LastUpdateTime'', utcnow_isoformat h)] else [])"

text \<open>The loop \<open>for k, v in default_params: if params.get(k) is None: params.put(k, v)\<close>.\<close>

fun set_unset_params :: "(string \<times> string) list \<Rightarrow> world \<Rightarrow> world" where
  "set_unset_params [] w = w"
| "set_unset_params ((k, v) # kvs) w =
     set_unset_params kvs (if params_get w k = None then params_put k v w else w)"

text \<open>Clock, boot log and the clearing of the parameter categories.\<close>

definition init_clear :: "host \<Rightarrow> world \<Rightarrow> world" where
  "init_clear h w =
     (let w1 = emit Bootlog (emit SetTime w);
          w2 = params_clear_all h CLEAR_ON_MANAGER_START w1;
          w3 = params_clear_all h CLEAR_ON_ONROAD_TRANSITION w2;
          w4 = params_clear_all h CLEAR_ON_OFFROAD_TRANSITION w3
      in if is_release_branch h then params_clear_all h DEVELOPMENT_ONLY w4 else w4)"

definition init_defaults :: "host \<Rightarrow> world \<Rightarrow> world" where
  "init_defaults h w =
     set_unset_params (default_params h)
       (if params_get_bool w ''RecordFrontLock'' then params_put_bool ''RecordFront'' True w else w)"

text \<open>\<open>if os.getenv("PASSIVE") is not None: params.put_bool("Passive", bool(int(...)))\<close>.\<close>

definition passive_override :: "world \<Rightarrow> result" where
  "passive_override w =
     (case environ w ''PASSIVE'' of
        None \<Rightarrow> (w, None)
      | Some s \<Rightarrow>
          (case py_int s of
             None \<Rightarrow> (w, Some (ValueError s))
           | Some n \<Rightarrow> (params_put_bool ''Passive'' (n \<noteq> 0) w, None)))"

definition passive_required :: "world \<Rightarrow> result" where
  "passive_required w =
     (if params_get w ''Passive'' = None
      then (w, Some (Exception ''Passive must be set to continue''))
      else (w, None))"

definition init_shm :: "host \<Rightarrow> world \<Rightarrow> world" where
  "init_shm h w =
     (case shm_mkdir h of
        PermissionError \<Rightarrow> emit (Print ''WARNING: failed to make /dev/shm'') w
      | _ \<Rightarrow> w)"

fun bool_text :: "bool \<Rightarrow> string" where
  "bool_text True = ''1''"
| "bool_text False = ''0''"

definition init_version :: "host \<Rightarrow> world \<Rightarrow> world" where
  "init_version h w =
     (let w1 = params_put ''Version'' (get_version h) w;
          w2 = params_put ''TermsVersion'' (terms_version h) w1;
          w3 = params_put ''TrainingVersion'' (training_version h) w2;
          w4 = params_put ''GitCommit'' (get_commit h) w3;
          w5 = params_put ''GitBranch'' (get_short_branch h) w4;
          w6 = params_put ''GitRemote'' (get_origin h) w5;
          w7 = params_put_bool ''IsTestedBranch'' (is_tested_branch h) w6
      in params_put_bool ''IsReleaseBranch'' (is_release_branch h) w7)"

text \<open>The text Python puts into the message for the serial number, a \<open>bytes\<close> value or
  \<open>None\<close>: the bytes are quoted with apostrophes, or with double quotes when they hold an
  apostrophe and no double quote; the quote and the backslash are escaped, tab, line feed
  and carriage return are written as \<open>\t\<close>, \<open>\n\<close>, \<open>\r\<close>, and every other byte outside the
  printable ASCII range as \<open>\x\<close> with two hexadecimal digits.\<close>

definition hex_digit :: "nat \<Rightarrow> char" where
  "hex_digit n = ''0123456789abcdef'' ! (n mod 16)"

definition repr_byte :: "char \<Rightarrow> char \<Rightarrow> string" where
  "repr_byte quote c =
     (if c = quote \<or> c = CHR 0x5C then [CHR 0x5C, c]
      else if c = CHR 0x09 then [CHR 0x5C, CHR ''t'']
      else if c = CHR 0x0A then [CHR 0x5C, CHR ''n'']
      else if c = CHR 0x0D then [CHR 0x5C, CHR ''r'']
      else if (of_char c :: nat) < 32 \<or> 127 \<le> (of_char c :: nat)
        then [CHR 0x5C, CHR ''x'', hex_digit (of_char c div 16), hex_digit (of_char c)]
      else [c])"

fun repr_bytes :: "string option \<Rightarrow> string" where
  "repr_bytes None = ''None''"
| "repr_bytes (Some b) =
     (let quote = (if CHR 0x27 \<in> set b \<and> CHR 0x22 \<notin> set b then CHR 0x22 else CHR 0x27)
      in ''b'' @ [quote] @ concat (map (repr_byte quote) b) @ [quote])"

text \<open>Registration, the environment entries for the logger, and the logging set-up.
  \<open>if reg_res\<close> is false for \<open>None\<close> and for the empty text.\<close>

definition init_identity :: "host \<Rightarrow> world \<Rightarrow> result" where
  "init_identity h w =
     (let w1 = emit Register w in
      case register_result h of
        None \<Rightarrow>
          (w1, Some (Exception (''Registration failed for device '' @
                                 repr_bytes (params_get w1 ''HardwareSerial''))))
      | Some dongle_id \<Rightarrow>
          if dongle_id = [] then
            (w1, Some (Exception (''Registration failed for device '' @
                                   repr_bytes (params_get w1 ''HardwareSerial''))))
          else
            (let w2 = w1\<lparr>environ := (environ w1)(''DONGLE_ID'' \<mapsto> dongle_id)\<rparr>;
                 w3 = (if \<not> is_dirty h then w2\<lparr>environ := (environ w2)(''CLEAN'' \<mapsto> ''1'')\<rparr> else w2);
                 w4 = emit (BindGlobal dongle_id) (emit SentryInit w3)
             in (if error_txt_isfile h then emit RemoveErrorTxt w4 else w4, None)))"

definition manager_init :: "host \<Rightarrow> world \<Rightarrow> result" where
  "manager_init h w =
     and_then (and_then (passive_override (init_defaults h (init_clear h w))) passive_required)
       (\<lambda>w'. init_identity h (init_version h (init_shm h w')))"

section \<open>manager\_prepare and manager\_cleanup\<close>

text \<open>\<open>for p in managed_processes.values(): p.method()\<close>: the method is called on every
  entry in enumeration order and changes that entry only.\<close>

definition for_each_process ::
  "(managed_process \<Rightarrow> event) \<Rightarrow> (managed_process \<Rightarrow> managed_process) \<Rightarrow> world \<Rightarrow> world" where
  "for_each_process ev method w =
     w\<lparr>managed_processes := map method (managed_processes w),
       trace := trace w @ map ev (managed_processes w)\<rparr>"

definition manager_prepare :: "host \<Rightarrow> world \<Rightarrow> world" where
  "manager_prepare h w = for_each_process (\<lambda>p. Prepare (pname p)) (prepare_proc h) w"

definition manager_cleanup :: "host \<Rightarrow> world \<Rightarrow> world" where
  "manager_cleanup h w =
     (let w1 = for_each_process (\<lambda>p. Stop (pname p) False) (stop_proc h False) w;
          w2 = for_each_process (\<lambda>p. Stop (pname p) True) (stop_proc h True) w1
      in emit (Info ''everything is dead'') w2)"

definition is_running_on_wsl2 :: "host \<Rightarrow> bool" where
  "is_running_on_wsl2 h =
     (case proc_version h of
        None \<Rightarrow> False
      | Some contents \<Rightarrow> contains ''WSL2'' contents \<or> contains ''Ubuntu'' contents)"

section \<open>manager\_thread\<close>

definition ignore_list :: "host \<Rightarrow> world \<Rightarrow> string list" where
  "ignore_list h w =
     (if params_get w ''DongleId'' = None \<or> params_get w ''DongleId'' = Some (UNREGISTERED_DONGLE_ID h)
      then [''manage_athenad'', ''uploader''] else [])
     @ (if environ w ''NOBOARD'' \<noteq> None then [''pandad''] else [])
     @ filter (\<lambda>x. length x > 0)
         (split_on CHR '','' (case environ w ''BLOCK'' of None \<Rightarrow> [] | Some b \<Rightarrow> b))"

definition write_onroad_params :: "host \<Rightarrow> bool \<Rightarrow> world \<Rightarrow> world" where
  "write_onroad_params h st w =
     emit (WriteOnroadParams st) (w\<lparr>params := write_onroad_store h st (params w)\<rparr>)"

definition ensure_running :: "host \<Rightarrow> bool \<Rightarrow> string \<Rightarrow> string list \<Rightarrow> world \<Rightarrow> world" where
  "ensure_running h st cp not_run w =
     emit (EnsureRunning st not_run)
       (w\<lparr>managed_processes := ensure_running_procs h st (params w) cp not_run (managed_processes w)\<rparr>)"

text \<open>
  One iteration of \<open>while True\<close> reads the world around the manager: what other processes
  wrote to the store since the last iteration, the \<open>deviceState.started\<close> and \<open>carParams\<close> that
  \<open>sm.update()\<close> delivers, the clock, and whether a call raises (the handler of \<open>SIGTERM\<close>
  raises \<open>SystemExit 1\<close> in the same way). The places where an iteration can be left by an
  exception are \<open>sm.update\<close>, \<open>ensure_running\<close>, \<open>pm.send\<close> and, inside the loop over the
  flags, the \<open>cloudlog.warning\<close> that follows the write of \<open>LastManagerExitReason\<close>.
\<close>

datatype call_site = AtUpdate | AtEnsureRunning | AtSend | AtWarning

record tick =
  store_writes :: "(string \<times> string option) list"
  started :: bool
  carParams :: string
  now :: string
  fault :: "(call_site \<times> exn) option"

definition raised_at :: "call_site \<Rightarrow> tick \<Rightarrow> exn option" where
  "raised_at c t =
     (case fault t of None \<Rightarrow> None | Some (c', e) \<Rightarrow> if c' = c then Some e else None)"

fun apply_writes :: "(string \<times> string option) list \<Rightarrow> (string \<rightharpoonup> string) \<Rightarrow> (string \<rightharpoonup> string)" where
  "apply_writes [] m = m"
| "apply_writes ((k, v) # ws) m = apply_writes ws (m(k := v))"

record loop_state =
  lw :: world
  started_prev :: bool
  print_timer :: nat

datatype step = Continue | Break | Raise exn

fun join :: "string \<Rightarrow> string list \<Rightarrow> string" where
  "join sep [] = []"
| "join sep [x] = x"
| "join sep (x # y # ys) = x @ sep @ join sep (y # ys)"

definition running_text :: "managed_process list \<Rightarrow> string" where
  "running_text ps =
     join '' ''
       (map (\<lambda>p. (if proc p = Some True then CHR 0x1B # ''[32m'' else CHR 0x1B # ''[31m'')
                   @ pname p @ CHR 0x1B # ''[0m'')
            (filter (\<lambda>p. proc p \<noteq> None) ps))"

text \<open>Modelled from the spec: \<open>get_process_state_msg\<close> belongs to \<open>ManagedProcess\<close>; the
  heartbeat carries, for every worker, its name and its liveness.\<close>

definition get_process_state_msg :: "managed_process \<Rightarrow> string \<times> bool" where
  "get_process_state_msg p = (pname p, proc p = Some True)"

text \<open>Lines 256 to 269: sample, react to an edge of \<open>started\<close>, remember the sample.\<close>

definition on_transition :: "host \<Rightarrow> bool \<Rightarrow> bool \<Rightarrow> world \<Rightarrow> world" where
  "on_transition h st prev w =
     (let w1 = (if st \<and> \<not> prev then params_clear_all h CLEAR_ON_ONROAD_TRANSITION w
                else if \<not> st \<and> prev then params_clear_all h CLEAR_ON_OFFROAD_TRANSITION w
                else w)
      in if st \<noteq> prev then write_onroad_params h st w1 else w1)"

definition tick_sample :: "host \<Rightarrow> tick \<Rightarrow> loop_state \<Rightarrow> loop_state" where
  "tick_sample h t s =
     s\<lparr>lw := on_transition h (started t) (started_prev s) (emit SmUpdate (lw s)),
       started_prev := started t\<rparr>"

text \<open>Lines 271 to 278: \<open>ensure_running\<close> and the line of running processes.\<close>

definition tick_supervise :: "host \<Rightarrow> string list \<Rightarrow> tick \<Rightarrow> loop_state \<Rightarrow> loop_state" where
  "tick_supervise h ignore t s =
     (let w1 = ensure_running h (started t) (carParams t) ignore (lw s);
          running = running_text (managed_processes w1);
          pt = (print_timer s + 1) mod 10;
          w2 = (if pt = 0 then emit (Print running) w1 else w1)
      in s\<lparr>lw := emit (Debug running) w2, print_timer := pt\<rparr>)"

text \<open>Lines 285 to 291: the loop over the three flags. It has no \<open>break\<close>: every flag that
  reads true sets \<open>shutdown\<close>, writes \<open>LastManagerExitReason\<close> and logs a warning. \<open>x\<close> is the
  exception the warning raises, if any; the result is that exception or \<open>shutdown\<close>.\<close>

fun shutdown_flags ::
  "host \<Rightarrow> string \<Rightarrow> exn option \<Rightarrow> string list \<Rightarrow> world \<times> bool \<Rightarrow> world \<times> (exn + bool)" where
  "shutdown_flags h ts x [] (w, shutdown) = (w, Inr shutdown)"
| "shutdown_flags h ts x (param # ps) (w, shutdown) =
     (if params_get_bool w param \<and> \<not> is_running_on_wsl2 h then
        (let w1 = params_put ''LastManagerExitReason'' (param @ '' '' @ ts) w in
         case x of
           Some e \<Rightarrow> (w1, Inl e)
         | None \<Rightarrow>
             shutdown_flags h ts x ps
               (emit (Warning (''Shutting down manager - '' @ param @ '' set'')) w1, True))
      else shutdown_flags h ts x ps (w, shutdown))"

text \<open>Lines 280 to 294: the heartbeat, then the flags.\<close>

definition tick_publish :: "host \<Rightarrow> tick \<Rightarrow> loop_state \<Rightarrow> loop_state \<times> (exn + bool)" where
  "tick_publish h t s =
     (let w1 = emit (Send (map get_process_state_msg (managed_processes (lw s)))) (lw s);
          r = shutdown_flags h (now t) (raised_at AtWarning t)
                [''DoUninstall'', ''DoShutdown'', ''DoReboot''] (w1, False)
      in (s\<lparr>lw := fst r\<rparr>, snd r))"

definition manager_tick :: "host \<Rightarrow> string list \<Rightarrow> tick \<Rightarrow> loop_state \<Rightarrow> loop_state \<times> step" where
  "manager_tick h ignore t s =
     (let s0 = s\<lparr>lw := (lw s)\<lparr>params := apply_writes (store_writes t) (params (lw s))\<rparr>\<rparr> in
      case raised_at AtUpdate t of
        Some e \<Rightarrow> (s0, Raise e)
      | None \<Rightarrow>
          (let s1 = tick_sample h t s0 in
           case raised_at AtEnsureRunning t of
             Some e \<Rightarrow> (s1, Raise e)
           | None \<Rightarrow>
               (let s2 = tick_supervise h ignore t s1 in
                case raised_at AtSend t of
                  Some e \<Rightarrow> (s2, Raise e)
                | None \<Rightarrow>
                    (let r = tick_publish h t s2
                     in (fst r,
                         case snd r of
                           Inl e \<Rightarrow> Raise e
                         | Inr shutdown \<Rightarrow> if shutdown then Break else Continue)))))"

text \<open>How a call ended: it returned or it raised. The loop may also still be running when
  the supplied iterations are used up; that is \<open>None\<close>.\<close>

datatype outcome = Returns | Raises exn

fun manager_loop ::
  "host \<Rightarrow> string list \<Rightarrow> loop_state \<Rightarrow> tick list \<Rightarrow> loop_state \<times> outcome option" where
  "manager_loop h ignore s [] = (s, None)"
| "manager_loop h ignore s (t # ts) =
     (case manager_tick h ignore t s of
        (s', Continue) \<Rightarrow> manager_loop h ignore s' ts
      | (s', Break) \<Rightarrow> (s', Some Returns)
      | (s', Raise e) \<Rightarrow> (s', Some (Raises e)))"

text \<open>Lines 232 to 253: the logger is bound and writes its two lines (the second is the
  dump of the environment), the ignore list is computed, the bus endpoints are created, and
  the processes are brought into the off-road state. \<open>sm['carParams']\<close> is the empty message
  before the first update.\<close>

definition thread_start :: "host \<Rightarrow> world \<Rightarrow> string list \<times> loop_state" where
  "thread_start h w =
     (let w1 = emit (Info ''environ'') (emit (Info ''manager start'') (emit (Bind ''manager'') w));
          ignore = ignore_list h w1;
          w2 = emit NewPubMaster (emit NewSubMaster w1);
          w3 = ensure_running h False [] ignore (write_onroad_params h False w2)
      in (ignore, \<lparr>lw = w3, started_prev = False, print_timer = 0\<rparr>))"

definition manager_thread :: "host \<Rightarrow> world \<Rightarrow> tick list \<Rightarrow> world \<times> outcome option" where
  "manager_thread h w ticks =
     (case manager_loop h (fst (thread_start h w)) (snd (thread_start h w)) ticks of
        (s, r) \<Rightarrow> (lw s, r))"

section \<open>main\<close>

text \<open>\<open>managed_processes['ui'].start()\<close>; the table is a dictionary keyed by name.\<close>

definition start_ui :: "host \<Rightarrow> world \<Rightarrow> result" where
  "start_ui h w =
     (if \<exists>p \<in> set (managed_processes w). pname p = ''ui''
      then (emit (Start ''ui'')
              (w\<lparr>managed_processes :=
                   map (\<lambda>p. if pname p = ''ui'' then start_proc h p else p) (managed_processes w)\<rparr>),
            None)
      else (w, Some (KeyError ''ui'')))"

text \<open>Lines 329 to 338: the store is read again; each branch logs and calls the hardware.\<close>

definition power_action :: "world \<Rightarrow> event list" where
  "power_action w =
     (if params_get_bool w ''DoUninstall'' then [Warning ''uninstalling'', Uninstall]
      else if params_get_bool w ''DoReboot'' then [Warning ''reboot'', Reboot]
      else if params_get_bool w ''DoShutdown'' then [Warning ''shutdown'', Shutdown]
      else [])"

definition power_dispatch :: "world \<Rightarrow> world" where
  "power_dispatch w = w\<lparr>trace := trace w @ power_action w\<rparr>"

text \<open>Lines 321 to 338: \<open>try\<close>, \<open>except Exception\<close>, \<open>finally\<close>, and what follows them. An
  exception that \<open>except Exception\<close> does not catch leaves \<open>main\<close> after the \<open>finally\<close> block.\<close>

definition run_and_teardown :: "host \<Rightarrow> world \<Rightarrow> tick list \<Rightarrow> world \<times> outcome option" where
  "run_and_teardown h w ticks =
     (case manager_thread h w ticks of
        (w1, None) \<Rightarrow> (w1, None)
      | (w1, Some Returns) \<Rightarrow> (power_dispatch (manager_cleanup h w1), Some Returns)
      | (w1, Some (Raises e)) \<Rightarrow>
          if is_Exception e
          then (power_dispatch
                  (manager_cleanup h (emit (CaptureException e) (emit (PrintExc e) w1))),
                Some Returns)
          else (manager_cleanup h w1, Some (Raises e)))"

definition main :: "host \<Rightarrow> world \<Rightarrow> tick list \<Rightarrow> world \<times> outcome option" where
  "main h w ticks =
     (let prepare_only = (environ w ''PREPAREONLY'' \<noteq> None) in
      case manager_init h w of
        (w1, Some e) \<Rightarrow> (w1, Some (Raises e))
      | (w1, None) \<Rightarrow>
          (let w2 = emit ModelSwitcher (if prebuilt_exists h then emit RemovePrebuilt w1 else w1) in
           case (if \<not> prepare_only then start_ui h w2 else (w2, None)) of
             (w3, Some e) \<Rightarrow> (w3, Some (Raises e))
           | (w3, None) \<Rightarrow>
               (let w4 = manager_prepare h w3 in
                if prepare_only then (w4, Some Returns)
                else run_and_teardown h (emit InstallSigterm w4) ticks)))"

section \<open>Reading the list of calls\<close>

text \<open>The categories cleared, the exit reasons written and the exceptions reported, in the
  order of the calls.\<close>

definition cleared :: "event list \<Rightarrow> ParamKeyType list" where
  "cleared evs = concat (map (\<lambda>e. case e of ClearAll t \<Rightarrow> [t] | _ \<Rightarrow> []) evs)"

definition exit_reasons :: "event list \<Rightarrow> string list" where
  "exit_reasons evs =
     concat (map (\<lambda>e. case e of Put k v \<Rightarrow> if k = ''LastManagerExitReason'' then [v] else []
                        | _ \<Rightarrow> []) evs)"

definition reported :: "event list \<Rightarrow> exn list" where
  "reported evs = concat (map (\<lambda>e. case e of CaptureException x \<Rightarrow> [x] | _ \<Rightarrow> []) evs)"

text \<open>The calls that \<open>manager_init\<close> can make, and those the body of \<open>manager_thread\<close> can
  make when its ignore list is \<open>ignore\<close>.\<close>

definition init_event :: "event \<Rightarrow> bool" where
  "init_event e =
     (case e of SetTime \<Rightarrow> True | Bootlog \<Rightarrow> True | ClearAll t \<Rightarrow> True | Put k v \<Rightarrow> True
      | Print s \<Rightarrow> True | Register \<Rightarrow> True | SentryInit \<Rightarrow> True | BindGlobal d \<Rightarrow> True
      | RemoveErrorTxt \<Rightarrow> True | _ \<Rightarrow> False)"

definition loop_event :: "string list \<Rightarrow> event \<Rightarrow> bool" where
  "loop_event ignore e =
     (case e of ClearAll t \<Rightarrow> True | Put k v \<Rightarrow> True | Print s \<Rightarrow> True
      | WriteOnroadParams st \<Rightarrow> True | EnsureRunning st not_run \<Rightarrow> not_run = ignore
      | SmUpdate \<Rightarrow> True | Send m \<Rightarrow> True | Debug s \<Rightarrow> True | Warning s \<Rightarrow> True
      | _ \<Rightarrow> False)"

text \<open>The calls \<open>manager_thread\<close> makes before its loop, and the calls it can make at all.\<close>

definition thread_start_calls :: "string list \<Rightarrow> event list" where
  "thread_start_calls ignore =
     [Bind ''manager'', Info ''manager start'', Info ''environ'', NewSubMaster, NewPubMaster,
      WriteOnroadParams False, EnsureRunning False ignore]"

definition thread_event :: "string list \<Rightarrow> event \<Rightarrow> bool" where
  "thread_event ignore e = (loop_event ignore e \<or> e \<in> set (thread_start_calls ignore))"

text \<open>The spec's rule for the edges of the operating state: a change from off-road to
  on-road clears one category, the change back clears the other, a steady sample none.\<close>

fun edge_clears :: "bool \<Rightarrow> bool list \<Rightarrow> ParamKeyType list" where
  "edge_clears prev [] = []"
| "edge_clears prev (st # sts) =
     (if st \<and> \<not> prev then [CLEAR_ON_ONROAD_TRANSITION]
      else if \<not> st \<and> prev then [CLEAR_ON_OFFROAD_TRANSITION]
      else []) @ edge_clears st sts"

section \<open>A concrete device for the scenarios\<close>

definition key_table :: "(string \<times> ParamKeyType) list" where
  "key_table =
     [(''DoReboot'', CLEAR_ON_MANAGER_START), (''DoShutdown'', CLEAR_ON_MANAGER_START),
      (''DoUninstall'', CLEAR_ON_MANAGER_START), (''IsOnroad'', CLEAR_ON_MANAGER_START),
      (''CurrentRoute'', CLEAR_ON_ONROAD_TRANSITION), (''LastOffroadStatusPacket'', CLEAR_ON_OFFROAD_TRANSITION)]"

definition supervisor0 ::
  "bool \<Rightarrow> (string \<rightharpoonup> string) \<Rightarrow> string \<Rightarrow> string list \<Rightarrow> managed_process list \<Rightarrow> managed_process list" where
  "supervisor0 st store cp not_run ps =
     map (\<lambda>p. if pname p \<in> set not_run then p\<lparr>proc := map_option (\<lambda>b. False) (proc p)\<rparr>
               else p\<lparr>proc := Some True\<rparr>) ps"

definition stop0 :: "bool \<Rightarrow> managed_process \<Rightarrow> managed_process" where
  "stop0 block p = (if block then p\<lparr>proc := map_option (\<lambda>b. False) (proc p)\<rparr> else p)"

definition h0 :: host where
  "h0 = \<lparr>key_flags = (\<lambda>k t. (k, t) \<in> set key_table),
          PC = False, is_release_branch = False, is_tested_branch = False, is_dirty = False,
          get_version = ''0.9.5'', terms_version = ''2'', training_version = ''0.2.0'',
          get_commit = ''f00d'', get_short_branch = ''master'', get_origin = ''origin'',
          personality_standard = ''standard'', UNREGISTERED_DONGLE_ID = ''UnregisteredDevice'',
          utcnow_isoformat = ''2024-01-01T00:00:00'', register_result = Some ''d0ng1e'',
          shm_mkdir = FileExistsError, error_txt_isfile = False, prebuilt_exists = True,
          proc_version = Some ''Linux version 4.9.103'',
          write_onroad_store = (\<lambda>st m. m(''IsOnroad'' \<mapsto> bool_text st, ''IsOffroad'' \<mapsto> bool_text (\<not> st))),
          ensure_running_procs = supervisor0,
          start_proc = (\<lambda>p. p\<lparr>proc := Some True\<rparr>),
          prepare_proc = (\<lambda>p. p),
          stop_proc = stop0\<rparr>"

definition w0 :: world where
  "w0 = \<lparr>params = [''HardwareSerial'' \<mapsto> ''abc123'', ''DongleId'' \<mapsto> ''d0ng1e''],
          environ = [''PASSIVE'' \<mapsto> ''0''],
          managed_processes = [\<lparr>pname = ''ui'', proc = None\<rparr>, \<lparr>pname = ''pandad'', proc = None\<rparr>,
                               \<lparr>pname = ''uploader'', proc = None\<rparr>],
          trace = []\<rparr>"

definition quiet_tick :: "bool \<Rightarrow> tick" where
  "quiet_tick st = \<lparr>store_writes = [], started = st, carParams = [], now = ''2024-01-01 00:00:01'',
                     fault = None\<rparr>"

text \<open>Iterations in which something happens around the manager.\<close>

definition flags_tick :: tick where
  "flags_tick = (quiet_tick False)\<lparr>store_writes := [(''DoUninstall'', Some ''1''), (''DoShutdown'', Some ''1'')]\<rparr>"

definition sigterm_tick :: tick where
  "sigterm_tick = (quiet_tick False)\<lparr>fault := Some (AtUpdate, SystemExit 1)\<rparr>"

definition sigterm_shutdown_tick :: tick where
  "sigterm_shutdown_tick = (quiet_tick False)\<lparr>store_writes := [(''DoShutdown'', Some ''1'')],
                                               fault := Some (AtUpdate, SystemExit 1)\<rparr>"

definition late_crash_tick :: tick where
  "late_crash_tick = (quiet_tick False)\<lparr>store_writes := [(''DoShutdown'', Some ''1'')],
                                         fault := Some (AtWarning, Exception ''boom'')\<rparr>"

definition crash_tick :: tick where
  "crash_tick = (quiet_tick False)\<lparr>store_writes := [(''DoShutdown'', Some ''1'')],
                                    fault := Some (AtEnsureRunning, Exception ''boom'')\<rparr>"

text \<open>A host on which \<open>is_running_on_wsl2\<close> answers true, a start with \<open>PREPAREONLY\<close> set, a
  start without any passive-mode setting, and the sampled road states of the transition
  scenario.\<close>

definition h_wsl :: host where
  "h_wsl = h0\<lparr>proc_version := Some ''Linux version 5.15.0 (Ubuntu 11.2.0)''\<rparr>"

definition w_prepare :: world where
  "w_prepare = w0\<lparr>environ := [''PREPAREONLY'' \<mapsto> ''1'', ''PASSIVE'' \<mapsto> ''0'']\<rparr>"

definition w_no_passive :: world where
  "w_no_passive = w0\<lparr>environ := Map.empty\<rparr>"

definition road_ticks :: "tick list" where
  "road_ticks = map quiet_tick [False, False, True, True, False]"

text \<open>What a run appended to the list of calls, and the test that a run only appended calls
  of one kind.\<close>

definition emitted :: "world \<Rightarrow> world \<Rightarrow> event list" where
  "emitted w w' = drop (length (trace w)) (trace w')"

definition emits_only :: "(event \<Rightarrow> bool) \<Rightarrow> world \<Rightarrow> world \<Rightarrow> bool" where
  "emits_only P w w' = (take (length (trace w)) (trace w') = trace w \<and> list_all P (emitted w w'))"

section \<open>Effects of the basic operations\<close>

lemma emit_simps:
  "trace (emit e w) = trace w @ [e]"
  "params (emit e w) = params w"
  "environ (emit e w) = environ w"
  "managed_processes (emit e w) = managed_processes w"
  by (simp_all add: emit_def)

lemma put_simps:
  "trace (params_put k v w) = trace w @ [Put k v]"
  "params (params_put k v w) = (params w)(k \<mapsto> v)"
  "environ (params_put k v w) = environ w"
  "managed_processes (params_put k v w) = managed_processes w"
  by (simp_all add: params_put_def emit_def)

lemma put_bool_simps:
  "trace (params_put_bool k b w) = trace w @ [Put k (if b then ''1'' else ''0'')]"
  "params (params_put_bool k b w) = (params w)(k \<mapsto> (if b then ''1'' else ''0''))"
  "environ (params_put_bool k b w) = environ w"
  "managed_processes (params_put_bool k b w) = managed_processes w"
  by (simp_all add: params_put_bool_def put_simps)

lemma clear_all_simps:
  "trace (params_clear_all h t w) = trace w @ [ClearAll t]"
  "params (params_clear_all h t w) = (\<lambda>k. if key_flags h k t then None else params w k)"
  "environ (params_clear_all h t w) = environ w"
  "managed_processes (params_clear_all h t w) = managed_processes w"
  by (simp_all add: params_clear_all_def emit_def)

lemma write_onroad_simps:
  "trace (write_onroad_params h st w) = trace w @ [WriteOnroadParams st]"
  "params (write_onroad_params h st w) = write_onroad_store h st (params w)"
  "environ (write_onroad_params h st w) = environ w"
  "managed_processes (write_onroad_params h st w) = managed_processes w"
  by (simp_all add: write_onroad_params_def emit_def)

lemma ensure_running_simps:
  "trace (ensure_running h st cp nr w) = trace w @ [EnsureRunning st nr]"
  "params (ensure_running h st cp nr w) = params w"
  "environ (ensure_running h st cp nr w) = environ w"
  "managed_processes (ensure_running h st cp nr w) =
     ensure_running_procs h st (params w) cp nr (managed_processes w)"
  by (simp_all add: ensure_running_def emit_def)

lemma for_each_simps:
  "trace (for_each_process ev m w) = trace w @ map ev (managed_processes w)"
  "params (for_each_process ev m w) = params w"
  "environ (for_each_process ev m w) = environ w"
  "managed_processes (for_each_process ev m w) = map m (managed_processes w)"
  by (simp_all add: for_each_process_def)

lemma cleared_simps:
  "cleared [] = []"
  "cleared (xs @ ys) = cleared xs @ cleared ys"
  "cleared (e # xs) = (case e of ClearAll t \<Rightarrow> [t] | _ \<Rightarrow> []) @ cleared xs"
  by (simp_all add: cleared_def)

lemma exit_reasons_simps:
  "exit_reasons [] = []"
  "exit_reasons (xs @ ys) = exit_reasons xs @ exit_reasons ys"
  "exit_reasons (e # xs) =
     (case e of Put k v \<Rightarrow> if k = ''LastManagerExitReason'' then [v] else [] | _ \<Rightarrow> [])
     @ exit_reasons xs"
  by (simp_all add: exit_reasons_def)

lemma reported_simps:
  "reported [] = []"
  "reported (xs @ ys) = reported xs @ reported ys"
  "reported (e # xs) = (case e of CaptureException x \<Rightarrow> [x] | _ \<Rightarrow> []) @ reported xs"
  by (simp_all add: reported_def)

section \<open>Splitting and joining text\<close>

lemma split_on_nonempty: "split_on c s \<noteq> []"
  by (induction s) (auto split: list.splits)

lemma join_Cons_Cons: "join sep ((x # y) # ys) = x # join sep (y # ys)"
  by (cases ys) simp_all

lemma split_on_join: "join [c] (split_on c s) = s"
proof (induction s)
  case Nil
  show ?case by simp
next
  case (Cons x xs)
  obtain y ys where sp: "split_on c xs = y # ys"
    using split_on_nonempty [of c xs] by (cases "split_on c xs") auto
  show ?case using Cons.IH by (simp add: sp join_Cons_Cons)
qed

lemma split_on_no_sep: "\<forall>x \<in> set (split_on c s). c \<notin> set x"
  by (induction s) (auto split: list.splits)

section \<open>Seeding of the default parameters\<close>

lemma seed_params:
  "params (set_unset_params T w) k = (case params w k of Some v \<Rightarrow> Some v | None \<Rightarrow> map_of T k)"
  by (induction T arbitrary: w) (auto simp: params_get_def put_simps split: option.splits)

lemma seed_frame:
  "environ (set_unset_params T w) = environ w"
  "managed_processes (set_unset_params T w) = managed_processes w"
  by (induction T arbitrary: w) (auto simp: put_simps)

lemma seed_trace:
  "distinct (map fst T) \<Longrightarrow>
   trace (set_unset_params T w) =
     trace w @ map (\<lambda>(k, v). Put k v) (filter (\<lambda>(k, v). params_get w k = None) T)"
proof (induction T arbitrary: w)
  case Nil
  then show ?case by simp
next
  case (Cons kv T)
  obtain k v where kv: "kv = (k, v)" by (cases kv)
  from Cons.prems kv have d: "distinct (map fst T)" and nk: "k \<notin> fst ` set T" by auto
  have same: "filter (\<lambda>(k', v'). params_get (params_put k v w) k' = None) T
            = filter (\<lambda>(k', v'). params_get w k' = None) T"
    using nk by (intro filter_cong) (auto simp: params_get_def put_simps image_iff)
  show ?case
    using Cons.IH[OF d] same by (simp add: kv put_simps)
qed

lemma seed_events:
  "\<exists>evs. trace (set_unset_params T w) = trace w @ evs \<and> list_all init_event evs"
proof (induction T arbitrary: w)
  case Nil
  then show ?case by simp
next
  case (Cons kv T)
  obtain k v where kv: "kv = (k, v)" by (cases kv)
  show ?case
  proof (cases "params_get w k = None")
    case True
    from Cons.IH[of "params_put k v w"] obtain evs where
      "trace (set_unset_params T (params_put k v w)) = trace (params_put k v w) @ evs"
      "list_all init_event evs" by blast
    then have "trace (set_unset_params (kv # T) w) = trace w @ (Put k v # evs)
               \<and> list_all init_event (Put k v # evs)"
      using True by (simp add: kv put_simps init_event_def)
    then show ?thesis by blast
  next
    case False
    then show ?thesis using Cons.IH[of w] by (auto simp: kv)
  qed
qed

lemma seed_fixpoint:
  "set_unset_params T (set_unset_params T w) = set_unset_params T w"
proof -
  have skip: "\<And>T' u. (\<forall>k \<in> fst ` set T'. params u k \<noteq> None) \<Longrightarrow> set_unset_params T' u = u"
  proof -
    fix T' :: "(string \<times> string) list" and u
    show "(\<forall>k \<in> fst ` set T'. params u k \<noteq> None) \<Longrightarrow> set_unset_params T' u = u"
      by (induction T') (auto simp: params_get_def)
  qed
  have "\<forall>k \<in> fst ` set T. params (set_unset_params T w) k \<noteq> None"
  proof
    fix k assume "k \<in> fst ` set T"
    then have "map_of T k \<noteq> None" by (simp add: map_of_eq_None_iff)
    then show "params (set_unset_params T w) k \<noteq> None"
      by (simp add: seed_params split: option.splits)
  qed
  then show ?thesis by (rule skip)
qed

section \<open>What a run appends to the list of calls\<close>

lemma emits_onlyI:
  "trace w' = trace w @ evs \<Longrightarrow> list_all P evs \<Longrightarrow> emits_only P w w'"
  by (simp add: emits_only_def emitted_def)

lemma emitted_append: "trace w' = trace w @ evs \<Longrightarrow> emitted w w' = evs"
  by (simp add: emitted_def)

lemma emits_onlyD:
  "emits_only P w w' \<Longrightarrow> trace w' = trace w @ emitted w w' \<and> list_all P (emitted w w')"
  unfolding emits_only_def emitted_def
  by (metis append_take_drop_id)

lemma emits_only_refl: "emits_only P w w"
  by (simp add: emits_only_def emitted_def)

lemma emits_only_trans:
  assumes "emits_only P w1 w2" and "emits_only P w2 w3"
  shows "emits_only P w1 w3"
proof -
  from assms(1) have a: "trace w2 = trace w1 @ emitted w1 w2" "list_all P (emitted w1 w2)"
    by (auto dest: emits_onlyD)
  from assms(2) have b: "trace w3 = trace w2 @ emitted w2 w3" "list_all P (emitted w2 w3)"
    by (auto dest: emits_onlyD)
  have "trace w3 = trace w1 @ (emitted w1 w2 @ emitted w2 w3)" using a(1) b(1) by simp
  moreover have "list_all P (emitted w1 w2 @ emitted w2 w3)" using a(2) b(2) by simp
  ultimately show ?thesis by (rule emits_onlyI)
qed

lemma emitted_trans:
  assumes "emits_only P w1 w2" and "emits_only Q w2 w3"
  shows "emitted w1 w3 = emitted w1 w2 @ emitted w2 w3"
proof -
  from assms(1) have a: "trace w2 = trace w1 @ emitted w1 w2" by (auto dest: emits_onlyD)
  from assms(2) have b: "trace w3 = trace w2 @ emitted w2 w3" by (auto dest: emits_onlyD)
  have "trace w3 = trace w1 @ (emitted w1 w2 @ emitted w2 w3)" using a b by simp
  then show ?thesis by (rule emitted_append)
qed

lemma emits_only_mono:
  "emits_only P w w' \<Longrightarrow> (\<And>e. P e \<Longrightarrow> Q e) \<Longrightarrow> emits_only Q w w'"
  by (auto simp: emits_only_def list_all_iff)

section \<open>Start-up: which calls it makes and what it leaves alone\<close>

lemma init_clear_frame:
  "environ (init_clear h w) = environ w"
  "managed_processes (init_clear h w) = managed_processes w"
  by (simp_all add: init_clear_def Let_def clear_all_simps emit_simps)

lemma init_clear_emits: "emits_only init_event w (init_clear h w)"
proof -
  have "\<exists>evs. trace (init_clear h w) = trace w @ evs \<and> list_all init_event evs"
    by (simp add: init_clear_def Let_def clear_all_simps emit_simps init_event_def)
  then show ?thesis by (auto intro: emits_onlyI)
qed

lemma init_defaults_frame:
  "environ (init_defaults h w) = environ w"
  "managed_processes (init_defaults h w) = managed_processes w"
  by (simp_all add: init_defaults_def seed_frame put_bool_simps)

lemma init_defaults_emits: "emits_only init_event w (init_defaults h w)"
proof -
  let ?w1 = "if params_get_bool w ''RecordFrontLock'' then params_put_bool ''RecordFront'' True w else w"
  have "emits_only init_event w ?w1"
    by (auto intro!: emits_onlyI [where evs = "[Put ''RecordFront'' ''1'']"] emits_only_refl
             simp: put_bool_simps init_event_def)
  moreover have "emits_only init_event ?w1 (set_unset_params (default_params h) ?w1)"
    using seed_events [of "default_params h" ?w1] by (auto intro: emits_onlyI)
  ultimately show ?thesis unfolding init_defaults_def by (rule emits_only_trans)
qed

lemma passive_override_frame:
  "environ (fst (passive_override w)) = environ w"
  "managed_processes (fst (passive_override w)) = managed_processes w"
  by (simp_all add: passive_override_def put_bool_simps split: option.splits)

lemma passive_override_emits: "emits_only init_event w (fst (passive_override w))"
proof -
  have "\<exists>evs. trace (fst (passive_override w)) = trace w @ evs \<and> list_all init_event evs"
    by (simp add: passive_override_def put_bool_simps init_event_def split: option.splits)
  then show ?thesis by (auto intro: emits_onlyI)
qed

lemma passive_override_unset:
  "environ w ''PASSIVE'' = None \<Longrightarrow> passive_override w = (w, None)"
  by (simp add: passive_override_def)

lemma passive_override_set:
  "environ w ''PASSIVE'' = Some s \<Longrightarrow> py_int s = Some n \<Longrightarrow>
   passive_override w = (params_put_bool ''Passive'' (n \<noteq> 0) w, None)"
  by (simp add: passive_override_def)

lemma init_shm_frame:
  "environ (init_shm h w) = environ w"
  "managed_processes (init_shm h w) = managed_processes w"
  "params (init_shm h w) = params w"
  by (simp_all add: init_shm_def emit_simps split: mkdir_result.splits)

lemma init_shm_emits: "emits_only init_event w (init_shm h w)"
proof -
  have "\<exists>evs. trace (init_shm h w) = trace w @ evs \<and> list_all init_event evs"
    by (simp add: init_shm_def emit_simps init_event_def split: mkdir_result.splits)
  then show ?thesis by (auto intro: emits_onlyI)
qed

lemma init_version_frame:
  "environ (init_version h w) = environ w"
  "managed_processes (init_version h w) = managed_processes w"
  by (simp_all add: init_version_def Let_def put_simps put_bool_simps)

lemma init_version_emits: "emits_only init_event w (init_version h w)"
proof -
  have "\<exists>evs. trace (init_version h w) = trace w @ evs \<and> list_all init_event evs"
    by (simp add: init_version_def Let_def put_simps put_bool_simps init_event_def)
  then show ?thesis by (auto intro: emits_onlyI)
qed

lemma init_identity_frame:
  "managed_processes (fst (init_identity h w)) = managed_processes w"
  "environ (fst (init_identity h w)) ''PREPAREONLY'' = environ w ''PREPAREONLY''"
  "environ (fst (init_identity h w)) ''NOBOARD'' = environ w ''NOBOARD''"
  "environ (fst (init_identity h w)) ''BLOCK'' = environ w ''BLOCK''"
  by (simp_all add: init_identity_def Let_def emit_simps split: option.splits)

lemma init_identity_emits: "emits_only init_event w (fst (init_identity h w))"
proof -
  have "\<exists>evs. trace (fst (init_identity h w)) = trace w @ evs \<and> list_all init_event evs"
    by (simp add: init_identity_def Let_def emit_simps init_event_def split: option.splits)
  then show ?thesis by (auto intro: emits_onlyI)
qed

lemma init_identity_ok:
  "register_result h = Some d \<Longrightarrow> d \<noteq> [] \<Longrightarrow> snd (init_identity h w) = None"
  by (simp add: init_identity_def Let_def)

text \<open>The world in which the passive-mode requirement is checked.\<close>

lemma manager_init_passive_missing:
  assumes "passive_override (init_defaults h (init_clear h w)) = (w1, None)"
    and "params_get w1 ''Passive'' = None"
  shows "manager_init h w = (w1, Some (Exception ''Passive must be set to continue''))"
  using assms by (simp add: manager_init_def passive_required_def)

lemma manager_init_cases:
  "manager_init h w =
     (case passive_override (init_defaults h (init_clear h w)) of
        (w1, Some e) \<Rightarrow> (w1, Some e)
      | (w1, None) \<Rightarrow>
          if params_get w1 ''Passive'' = None
          then (w1, Some (Exception ''Passive must be set to continue''))
          else init_identity h (init_version h (init_shm h w1)))"
  by (simp add: manager_init_def passive_required_def split: prod.splits option.splits)

lemma manager_init_emits: "emits_only init_event w (fst (manager_init h w))"
proof -
  let ?w0 = "init_defaults h (init_clear h w)"
  let ?w1 = "fst (passive_override ?w0)"
  have a: "emits_only init_event w ?w1"
    by (blast intro: emits_only_trans init_clear_emits init_defaults_emits passive_override_emits)
  have b: "emits_only init_event ?w1 (fst (init_identity h (init_version h (init_shm h ?w1))))"
    by (blast intro: emits_only_trans init_shm_emits init_version_emits init_identity_emits)
  show ?thesis
    using a emits_only_trans [OF a b]
    by (cases "passive_override ?w0") (auto simp: manager_init_cases split: option.splits)
qed

lemma manager_init_frame:
  "managed_processes (fst (manager_init h w)) = managed_processes w"
  "environ (fst (manager_init h w)) ''PREPAREONLY'' = environ w ''PREPAREONLY''"
proof -
  let ?w0 = "init_defaults h (init_clear h w)"
  have p: "managed_processes (fst (passive_override ?w0)) = managed_processes w"
    and e: "environ (fst (passive_override ?w0)) = environ w"
    by (simp_all add: passive_override_frame init_defaults_frame init_clear_frame)
  show "managed_processes (fst (manager_init h w)) = managed_processes w"
    using p
    by (cases "passive_override ?w0")
       (auto simp: manager_init_cases init_identity_frame init_version_frame init_shm_frame
             split: option.splits)
  show "environ (fst (manager_init h w)) ''PREPAREONLY'' = environ w ''PREPAREONLY''"
    using e
    by (cases "passive_override ?w0")
       (auto simp: manager_init_cases init_identity_frame init_version_frame init_shm_frame
             split: option.splits)
qed

lemma manager_init_ok:
  assumes "environ w ''PASSIVE'' = Some s" and "py_int s = Some n"
    and "register_result h = Some d" and "d \<noteq> []"
  shows "snd (manager_init h w) = None"
proof -
  let ?w0 = "init_defaults h (init_clear h w)"
  have "environ ?w0 ''PASSIVE'' = Some s"
    using assms(1) by (simp add: init_defaults_frame init_clear_frame)
  then have "passive_override ?w0 = (params_put_bool ''Passive'' (n \<noteq> 0) ?w0, None)"
    using assms(2) by (rule passive_override_set)
  then show ?thesis
    using assms(3,4)
    by (simp add: manager_init_cases params_get_def put_bool_simps init_identity_ok)
qed

section \<open>One iteration of the loop\<close>

lemma tick_sample_simps:
  "trace (lw (tick_sample h t s)) =
     trace (lw s) @ SmUpdate #
       (if started t \<and> \<not> started_prev s
          then [ClearAll CLEAR_ON_ONROAD_TRANSITION, WriteOnroadParams True]
        else if \<not> started t \<and> started_prev s
          then [ClearAll CLEAR_ON_OFFROAD_TRANSITION, WriteOnroadParams False]
        else [])"
  "started_prev (tick_sample h t s) = started t"
  "print_timer (tick_sample h t s) = print_timer s"
  by (auto simp: tick_sample_def on_transition_def Let_def emit_simps clear_all_simps
                 write_onroad_simps)

lemma tick_supervise_simps:
  "trace (lw (tick_supervise h ign t s)) =
     trace (lw s) @ EnsureRunning (started t) ign #
       (let r = running_text (ensure_running_procs h (started t) (params (lw s)) (carParams t) ign
                                (managed_processes (lw s)))
        in if (print_timer s + 1) mod 10 = 0 then [Print r, Debug r] else [Debug r])"
  "started_prev (tick_supervise h ign t s) = started_prev s"
  "params (lw (tick_supervise h ign t s)) = params (lw s)"
  by (simp_all add: tick_supervise_def Let_def emit_simps ensure_running_simps)

lemma shutdown_flags_raised:
  "snd (shutdown_flags h ts x ps (w, True)) \<noteq> Inr False"
proof (induction ps arbitrary: w)
  case Nil
  show ?case by simp
next
  case (Cons p ps)
  then show ?case by (cases x) (simp_all add: Let_def)
qed

lemma shutdown_flags_quiet:
  "snd (shutdown_flags h ts x ps (w, b)) = Inr False \<Longrightarrow>
   fst (shutdown_flags h ts x ps (w, b)) = w"
proof (induction ps arbitrary: w b)
  case Nil
  then show ?case by simp
next
  case (Cons p ps)
  then show ?case
    using shutdown_flags_raised [of h ts x ps]
    by (cases x) (auto simp: Let_def split: if_splits)
qed

lemma shutdown_flags_returns:
  "\<exists>sd. snd (shutdown_flags h ts None ps (w, b)) = Inr sd"
  by (induction ps arbitrary: w b) (simp_all add: Let_def)

lemma shutdown_flags_emits:
  "emits_only (\<lambda>e. (\<exists>k v. e = Put k v) \<or> (\<exists>m. e = Warning m)) w
     (fst (shutdown_flags h ts x ps (w, b)))"
proof (induction ps arbitrary: w b)
  case Nil
  show ?case by (simp add: emits_only_refl)
next
  case (Cons p ps)
  let ?P = "\<lambda>e. (\<exists>k v. e = Put k v) \<or> (\<exists>m. e = Warning m)"
  let ?w1 = "params_put ''LastManagerExitReason'' (p @ '' '' @ ts) w"
  let ?w' = "emit (Warning (''Shutting down manager - '' @ p @ '' set'')) ?w1"
  show ?case
  proof (cases "params_get_bool w p \<and> \<not> is_running_on_wsl2 h")
    case True
    show ?thesis
    proof (cases x)
      case None
      have "emits_only ?P w ?w'"
        by (rule emits_onlyI [where evs = "[Put ''LastManagerExitReason'' (p @ '' '' @ ts),
                 Warning (''Shutting down manager - '' @ p @ '' set'')]"])
           (simp_all add: emit_simps put_simps)
      then have "emits_only ?P w (fst (shutdown_flags h ts x ps (?w', True)))"
        using Cons.IH by (rule emits_only_trans)
      then show ?thesis using True None by (simp add: Let_def)
    next
      case (Some e)
      have "emits_only ?P w ?w1"
        by (rule emits_onlyI [where evs = "[Put ''LastManagerExitReason'' (p @ '' '' @ ts)]"])
           (simp_all add: put_simps)
      then show ?thesis using True Some by (simp add: Let_def)
    qed
  next
    case False
    then show ?thesis using Cons.IH [of w b] by auto
  qed
qed

declare shutdown_flags.simps [simp del]

lemma flag_events_quiet:
  "list_all (\<lambda>e. (\<exists>k v. e = Put k v) \<or> (\<exists>m. e = Warning m)) evs \<Longrightarrow>
   cleared evs = [] \<and> list_all (loop_event ign) evs"
  by (induction evs) (auto simp: cleared_def loop_event_def)

lemma tick_publish_simps:
  "trace (lw (fst (tick_publish h t s))) =
     trace (lw s) @ Send (map get_process_state_msg (managed_processes (lw s))) #
       emitted (emit (Send (map get_process_state_msg (managed_processes (lw s)))) (lw s))
               (lw (fst (tick_publish h t s)))"
  "list_all (loop_event ign)
     (emitted (emit (Send (map get_process_state_msg (managed_processes (lw s)))) (lw s))
              (lw (fst (tick_publish h t s))))"
  "cleared (emitted (emit (Send (map get_process_state_msg (managed_processes (lw s)))) (lw s))
                    (lw (fst (tick_publish h t s)))) = []"
  "snd (tick_publish h t s) = Inr False \<Longrightarrow>
     emitted (emit (Send (map get_process_state_msg (managed_processes (lw s)))) (lw s))
             (lw (fst (tick_publish h t s))) = []"
  "started_prev (fst (tick_publish h t s)) = started_prev s"
  "raised_at AtWarning t = None \<Longrightarrow> \<exists>sd. snd (tick_publish h t s) = Inr sd"
proof -
  let ?w1 = "emit (Send (map get_process_state_msg (managed_processes (lw s)))) (lw s)"
  let ?r = "shutdown_flags h (now t) (raised_at AtWarning t)
              [''DoUninstall'', ''DoShutdown'', ''DoReboot''] (?w1, False)"
  have w: "lw (fst (tick_publish h t s)) = fst ?r" and b: "snd (tick_publish h t s) = snd ?r"
    by (simp_all add: tick_publish_def Let_def)
  have e: "emits_only (\<lambda>e. (\<exists>k v. e = Put k v) \<or> (\<exists>m. e = Warning m)) ?w1 (fst ?r)"
    by (rule shutdown_flags_emits)
  from emits_onlyD [OF e] have tr: "trace (fst ?r) = trace ?w1 @ emitted ?w1 (fst ?r)"
    and fl: "list_all (\<lambda>e. (\<exists>k v. e = Put k v) \<or> (\<exists>m. e = Warning m)) (emitted ?w1 (fst ?r))"
    by simp_all
  show "trace (lw (fst (tick_publish h t s))) =
     trace (lw s) @ Send (map get_process_state_msg (managed_processes (lw s))) #
       emitted ?w1 (lw (fst (tick_publish h t s)))"
    using tr by (simp add: w emit_simps)
  show "list_all (loop_event ign) (emitted ?w1 (lw (fst (tick_publish h t s))))"
    using flag_events_quiet [OF fl] by (simp add: w)
  show "cleared (emitted ?w1 (lw (fst (tick_publish h t s)))) = []"
    using flag_events_quiet [OF fl] by (simp add: w)
  show "snd (tick_publish h t s) = Inr False \<Longrightarrow>
          emitted ?w1 (lw (fst (tick_publish h t s))) = []"
  proof -
    assume "snd (tick_publish h t s) = Inr False"
    then have "snd ?r = Inr False" unfolding b .
    then have "fst ?r = ?w1" by (rule shutdown_flags_quiet)
    then show ?thesis unfolding w by (simp add: emitted_def)
  qed
  show "started_prev (fst (tick_publish h t s)) = started_prev s"
    by (simp add: tick_publish_def Let_def)
  show "raised_at AtWarning t = None \<Longrightarrow> \<exists>sd. snd (tick_publish h t s) = Inr sd"
    unfolding b using shutdown_flags_returns [of h "now t" _ ?w1 False] by simp
qed

text \<open>The calls of one iteration, whichever way it ends.\<close>

lemma manager_tick_emitted:
  fixes h ign t s
  defines "s' \<equiv> fst (manager_tick h ign t s)"
    and "r \<equiv> snd (manager_tick h ign t s)"
    and "evs \<equiv> emitted (lw s) (lw (fst (manager_tick h ign t s)))"
  shows "trace (lw s') = trace (lw s) @ evs"
    and "list_all (loop_event ign) evs"
    and "raised_at AtUpdate t = Some e \<Longrightarrow> evs = [] \<and> r = Raise e"
    and "raised_at AtUpdate t = None \<Longrightarrow>
           (\<exists>evs'. evs = SmUpdate # evs') \<and> started_prev s' = started t
           \<and> cleared evs = edge_clears (started_prev s) [started t]"
    and "r \<noteq> Break \<Longrightarrow> raised_at AtWarning t = None \<Longrightarrow> exit_reasons evs = []"
proof -
  let ?s0 = "s\<lparr>lw := (lw s)\<lparr>params := apply_writes (store_writes t) (params (lw s))\<rparr>\<rparr>"
  let ?s1 = "tick_sample h t ?s0"
  let ?s2 = "tick_supervise h ign t ?s1"
  let ?s3 = "fst (tick_publish h t ?s2)"
  note pub = tick_publish_simps
  have all: "(\<exists>x. trace (lw s') = trace (lw s) @ x \<and> list_all (loop_event ign) x
        \<and> (\<forall>e. raised_at AtUpdate t = Some e \<longrightarrow> x = [] \<and> r = Raise e)
        \<and> (raised_at AtUpdate t = None \<longrightarrow>
              (\<exists>evs'. x = SmUpdate # evs') \<and> started_prev s' = started t
              \<and> cleared x = edge_clears (started_prev s) [started t])
        \<and> (r \<noteq> Break \<longrightarrow> raised_at AtWarning t = None \<longrightarrow> exit_reasons x = []))"
  proof (cases "raised_at AtUpdate t")
    case (Some e)
    then show ?thesis by (simp add: s'_def r_def manager_tick_def Let_def exit_reasons_def)
  next
    case u: None
    show ?thesis
    proof (cases "raised_at AtEnsureRunning t")
      case (Some e)
      then show ?thesis using u
        by (auto simp: s'_def r_def manager_tick_def Let_def tick_sample_simps cleared_def
                       loop_event_def exit_reasons_def)
    next
      case en: None
      show ?thesis
      proof (cases "raised_at AtSend t")
        case (Some e)
        then show ?thesis using u en
          by (auto simp: s'_def r_def manager_tick_def Let_def tick_sample_simps
                         tick_supervise_simps cleared_def loop_event_def exit_reasons_def)
      next
        case se: None
        have eq: "s' = ?s3"
          "r = (case snd (tick_publish h t ?s2) of
                  Inl e \<Rightarrow> Raise e
                | Inr shutdown \<Rightarrow> if shutdown then Break else Continue)"
          using u en se by (simp_all add: s'_def r_def manager_tick_def Let_def)
        let ?A = "if started t \<and> \<not> started_prev s
                    then [ClearAll CLEAR_ON_ONROAD_TRANSITION, WriteOnroadParams True]
                  else if \<not> started t \<and> started_prev s
                    then [ClearAll CLEAR_ON_OFFROAD_TRANSITION, WriteOnroadParams False]
                  else []"
        let ?run = "running_text (ensure_running_procs h (started t) (params (lw ?s1)) (carParams t)
                                    ign (managed_processes (lw ?s1)))"
        let ?B = "if (print_timer s + 1) mod 10 = 0 then [Print ?run, Debug ?run] else [Debug ?run]"
        let ?m = "Send (map get_process_state_msg (managed_processes (lw ?s2)))"
        let ?E = "emitted (emit ?m (lw ?s2)) (lw ?s3)"
        have tr: "trace (lw ?s3) = trace (lw s) @ SmUpdate # ?A @ EnsureRunning (started t) ign # ?B @ ?m # ?E"
          by (simp add: pub(1) tick_supervise_simps(1) tick_sample_simps Let_def)
        have A: "list_all (loop_event ign) ?A" "cleared ?A = edge_clears (started_prev s) [started t]"
                "exit_reasons ?A = []"
          by (auto simp: loop_event_def cleared_def exit_reasons_def)
        have B: "list_all (loop_event ign) ?B" "cleared ?B = []" "exit_reasons ?B = []"
          by (auto simp: loop_event_def cleared_def exit_reasons_def)
        have E: "list_all (loop_event ign) ?E" "cleared ?E = []"
          by (rule pub(2), rule pub(3))
        have E': "r \<noteq> Break \<Longrightarrow> raised_at AtWarning t = None \<Longrightarrow> ?E = []"
        proof -
          assume nb: "r \<noteq> Break" and nw: "raised_at AtWarning t = None"
          from pub(6) [OF nw, of h ?s2] obtain sd where sd: "snd (tick_publish h t ?s2) = Inr sd" ..
          with nb have "snd (tick_publish h t ?s2) = Inr False"
            by (cases sd) (simp_all add: eq(2))
          then show "?E = []" by (rule pub(4))
        qed
        define x where "x = SmUpdate # ?A @ EnsureRunning (started t) ign # ?B @ ?m # ?E"
        have tr': "trace (lw s') = trace (lw s) @ x"
          unfolding x_def eq(1) by (rule tr)
        have 1: "list_all (loop_event ign) x"
          unfolding x_def using A(1) B(1) E(1) by (simp add: loop_event_def)
        have 2: "cleared x = edge_clears (started_prev s) [started t]"
          unfolding x_def using A(2) B(2) E(2)
          by (simp only: cleared_simps event.case append_Nil append_Nil2)
        have 3: "r \<noteq> Break \<longrightarrow> raised_at AtWarning t = None \<longrightarrow> exit_reasons x = []"
        proof (intro impI)
          assume "r \<noteq> Break" and "raised_at AtWarning t = None"
          then have "?E = []" by (rule E')
          then show "exit_reasons x = []"
            unfolding x_def using A(3) B(3)
            by (simp only: exit_reasons_simps event.case append_Nil append_Nil2)
        qed
        have 4: "started_prev s' = started t"
          unfolding eq(1) by (simp add: pub(5) tick_supervise_simps(2) tick_sample_simps(2))
        have 5: "\<exists>evs'. x = SmUpdate # evs'"
          unfolding x_def by (rule exI, rule refl)
        show ?thesis
          by (rule exI [of _ x]) (use tr' 1 2 3 4 5 u in simp)
      qed
    qed
  qed
  then obtain x where x: "trace (lw s') = trace (lw s) @ x \<and> list_all (loop_event ign) x
        \<and> (\<forall>e. raised_at AtUpdate t = Some e \<longrightarrow> x = [] \<and> r = Raise e)
        \<and> (raised_at AtUpdate t = None \<longrightarrow>
              (\<exists>evs'. x = SmUpdate # evs') \<and> started_prev s' = started t
              \<and> cleared x = edge_clears (started_prev s) [started t])
        \<and> (r \<noteq> Break \<longrightarrow> raised_at AtWarning t = None \<longrightarrow> exit_reasons x = [])" ..
  from x have x1: "trace (lw s') = trace (lw s) @ x" by (rule conjunct1)
  have ex: "evs = x" unfolding evs_def s'_def [symmetric] using x1 by (rule emitted_append)
  from x show "trace (lw s') = trace (lw s) @ evs" unfolding ex by (rule conjunct1)
  from x show "list_all (loop_event ign) evs" unfolding ex by simp
  from x show "raised_at AtUpdate t = Some e \<Longrightarrow> evs = [] \<and> r = Raise e" unfolding ex by simp
  from x show "raised_at AtUpdate t = None \<Longrightarrow>
           (\<exists>evs'. evs = SmUpdate # evs') \<and> started_prev s' = started t
           \<and> cleared evs = edge_clears (started_prev s) [started t]" unfolding ex by simp
  from x show "r \<noteq> Break \<Longrightarrow> raised_at AtWarning t = None \<Longrightarrow> exit_reasons evs = []"
    unfolding ex by simp
qed

lemma manager_tick_not_raised:
  "snd (manager_tick h ign t s) \<noteq> Raise e \<Longrightarrow> raised_at AtUpdate t \<noteq> Some e"
  by (auto simp: manager_tick_def Let_def)

lemma manager_tick_continue:
  "snd (manager_tick h ign t s) = Continue \<Longrightarrow> raised_at AtUpdate t = None"
  by (auto simp: manager_tick_def Let_def split: option.splits)

lemma raised_at_once:
  "raised_at c t = Some e \<Longrightarrow> c' \<noteq> c \<Longrightarrow> raised_at c' t = None"
  by (auto simp: raised_at_def split: option.splits if_splits)

section \<open>The loop and manager\_thread\<close>

lemma manager_loop_step:
  "snd (manager_tick h ign t s) = Continue \<Longrightarrow>
     manager_loop h ign s (t # ts) = manager_loop h ign (fst (manager_tick h ign t s)) ts"
  "snd (manager_tick h ign t s) = Break \<Longrightarrow>
     manager_loop h ign s (t # ts) = (fst (manager_tick h ign t s), Some Returns)"
  "snd (manager_tick h ign t s) = Raise e \<Longrightarrow>
     manager_loop h ign s (t # ts) = (fst (manager_tick h ign t s), Some (Raises e))"
  by (cases "manager_tick h ign t s"; simp)+

declare manager_loop.simps(2) [simp del]

lemma manager_tick_emits:
  "emits_only (loop_event ign) (lw s) (lw (fst (manager_tick h ign t s)))"
  by (rule emits_onlyI [OF manager_tick_emitted(1) manager_tick_emitted(2)])

lemma manager_loop_emits:
  "emits_only (loop_event ign) (lw s) (lw (fst (manager_loop h ign s ts)))"
proof (induction ts arbitrary: s)
  case Nil
  show ?case by (simp add: emits_only_refl)
next
  case (Cons t ts)
  let ?s' = "fst (manager_tick h ign t s)"
  have a: "emits_only (loop_event ign) (lw s) (lw ?s')" by (rule manager_tick_emits)
  show ?case
  proof (cases "snd (manager_tick h ign t s)")
    case Continue
    show ?thesis
      unfolding manager_loop_step(1) [OF Continue]
      using a Cons.IH by (rule emits_only_trans)
  next
    case Break
    show ?thesis unfolding manager_loop_step(2) [OF Break] using a by simp
  next
    case (Raise e)
    show ?thesis unfolding manager_loop_step(3) [OF Raise] using a by simp
  qed
qed

lemma manager_loop_emitted_step:
  assumes "snd (manager_tick h ign t s) = Continue"
  shows "emitted (lw s) (lw (fst (manager_loop h ign s (t # ts)))) =
           emitted (lw s) (lw (fst (manager_tick h ign t s)))
           @ emitted (lw (fst (manager_tick h ign t s)))
                     (lw (fst (manager_loop h ign (fst (manager_tick h ign t s)) ts)))"
  unfolding manager_loop_step(1) [OF assms]
  by (rule emitted_trans [OF manager_tick_emits manager_loop_emits])

text \<open>The first call of the loop, if it makes any, is \<open>sm.update()\<close>.\<close>

lemma manager_loop_head:
  "emitted (lw s) (lw (fst (manager_loop h ign s ts))) = []
   \<or> (\<exists>evs'. emitted (lw s) (lw (fst (manager_loop h ign s ts))) = SmUpdate # evs')"
proof (cases ts)
  case Nil
  then show ?thesis by (simp add: emitted_def)
next
  case (Cons t ts')
  let ?s' = "fst (manager_tick h ign t s)"
  show ?thesis
  proof (cases "raised_at AtUpdate t")
    case (Some e)
    from manager_tick_emitted(3) [OF Some, where h = h and ign = ign and s = s]
    have e: "emitted (lw s) (lw ?s') = []" and r: "snd (manager_tick h ign t s) = Raise e"
      by simp_all
    show ?thesis unfolding Cons manager_loop_step(3) [OF r] using e by simp
  next
    case None
    from manager_tick_emitted(4) [OF None, where h = h and ign = ign and s = s]
    obtain evs' where hd: "emitted (lw s) (lw ?s') = SmUpdate # evs'" by blast
    show ?thesis
    proof (cases "snd (manager_tick h ign t s)")
      case Continue
      show ?thesis unfolding Cons manager_loop_emitted_step [OF Continue] hd by simp
    next
      case Break
      show ?thesis unfolding Cons manager_loop_step(2) [OF Break] using hd by simp
    next
      case (Raise e)
      show ?thesis unfolding Cons manager_loop_step(3) [OF Raise] using hd by simp
    qed
  qed
qed

text \<open>While the loop keeps running, the categories it clears are those of the edges of
  \<open>started\<close>.\<close>

lemma manager_loop_running:
  "snd (manager_loop h ign s (t # ts)) = None \<Longrightarrow> snd (manager_tick h ign t s) = Continue"
  by (cases "snd (manager_tick h ign t s)") (simp_all add: manager_loop_step)

lemma manager_loop_cleared:
  "snd (manager_loop h ign s ts) = None \<Longrightarrow>
   cleared (emitted (lw s) (lw (fst (manager_loop h ign s ts))))
     = edge_clears (started_prev s) (map started ts)"
proof (induction ts arbitrary: s)
  case Nil
  show ?case by (simp add: emitted_def cleared_def)
next
  case (Cons t ts)
  let ?s' = "fst (manager_tick h ign t s)"
  have c: "snd (manager_tick h ign t s) = Continue"
    using Cons.prems by (rule manager_loop_running)
  then have u: "raised_at AtUpdate t = None" by (rule manager_tick_continue)
  from manager_tick_emitted(4) [OF u, where h = h and ign = ign and s = s]
  have sp: "started_prev ?s' = started t"
    and cl: "cleared (emitted (lw s) (lw ?s')) = edge_clears (started_prev s) [started t]"
    by simp_all
  have "snd (manager_loop h ign ?s' ts) = None"
    using Cons.prems by (simp add: manager_loop_step(1) [OF c])
  then have ih: "cleared (emitted (lw ?s') (lw (fst (manager_loop h ign ?s' ts))))
                  = edge_clears (started t) (map started ts)"
    using Cons.IH [of ?s'] sp by simp
  show ?case
    unfolding manager_loop_emitted_step [OF c] cleared_simps(2) cl ih by simp
qed

lemma manager_loop_prefix:
  "snd (manager_loop h ign s ts) = None \<Longrightarrow> snd (manager_loop h ign s (take n ts)) = None"
proof (induction ts arbitrary: s n)
  case Nil
  show ?case by simp
next
  case (Cons t ts)
  show ?case
  proof (cases n)
    case 0
    then show ?thesis by simp
  next
    case (Suc m)
    have c: "snd (manager_tick h ign t s) = Continue"
      using Cons.prems by (rule manager_loop_running)
    have "snd (manager_loop h ign (fst (manager_tick h ign t s)) ts) = None"
      using Cons.prems by (simp add: manager_loop_step(1) [OF c])
    then have "snd (manager_loop h ign (fst (manager_tick h ign t s)) (take m ts)) = None"
      by (rule Cons.IH)
    then show ?thesis by (simp add: Suc manager_loop_step(1) [OF c])
  qed
qed

text \<open>A loop that did not end by \<open>break\<close>, and in which no warning of the flag loop raised,
  wrote no exit reason.\<close>

lemma manager_loop_reasons:
  "snd (manager_loop h ign s ts) \<noteq> Some Returns \<Longrightarrow>
   list_all (\<lambda>t. raised_at AtWarning t = None) ts \<Longrightarrow>
   exit_reasons (emitted (lw s) (lw (fst (manager_loop h ign s ts)))) = []"
proof (induction ts arbitrary: s)
  case Nil
  show ?case by (simp add: emitted_def exit_reasons_def)
next
  case (Cons t ts)
  let ?s' = "fst (manager_tick h ign t s)"
  have nw: "raised_at AtWarning t = None"
    and rest: "list_all (\<lambda>t. raised_at AtWarning t = None) ts"
    using Cons.prems(2) by simp_all
  show ?case
  proof (cases "snd (manager_tick h ign t s)")
    case Continue
    then have nb: "snd (manager_tick h ign t s) \<noteq> Break" by simp
    have "snd (manager_loop h ign ?s' ts) \<noteq> Some Returns"
      using Cons.prems(1) by (simp add: manager_loop_step(1) [OF Continue])
    then have ih: "exit_reasons (emitted (lw ?s') (lw (fst (manager_loop h ign ?s' ts)))) = []"
      using rest by (rule Cons.IH)
    show ?thesis
      unfolding manager_loop_emitted_step [OF Continue] exit_reasons_simps(2)
                manager_tick_emitted(5) [OF nb nw] ih by simp
  next
    case Break
    then show ?thesis using Cons.prems(1) by (simp add: manager_loop_step(2))
  next
    case (Raise e)
    then have nb: "snd (manager_tick h ign t s) \<noteq> Break" by simp
    show ?thesis
      unfolding manager_loop_step(3) [OF Raise] using manager_tick_emitted(5) [OF nb nw] by simp
  qed
qed

lemma ignore_list_cong:
  "params w' = params w \<Longrightarrow> environ w' = environ w \<Longrightarrow> ignore_list h w' = ignore_list h w"
  by (simp add: ignore_list_def params_get_def)

lemma thread_start_simps:
  "fst (thread_start h w) = ignore_list h w"
  "trace (lw (snd (thread_start h w))) = trace w @ thread_start_calls (ignore_list h w)"
  "started_prev (snd (thread_start h w)) = False"
  "print_timer (snd (thread_start h w)) = 0"
  "params (lw (snd (thread_start h w))) = write_onroad_store h False (params w)"
  by (simp_all add: thread_start_def thread_start_calls_def Let_def emit_simps write_onroad_simps
                    ensure_running_simps
                    ignore_list_cong [of "emit (Info ''environ'')
                       (emit (Info ''manager start'') (emit (Bind ''manager'') w))" w])

lemma manager_thread_simps:
  "snd (manager_thread h w ts) = snd (manager_loop h (ignore_list h w) (snd (thread_start h w)) ts)"
  "fst (manager_thread h w ts) =
     lw (fst (manager_loop h (ignore_list h w) (snd (thread_start h w)) ts))"
  by (simp_all add: manager_thread_def thread_start_simps(1) split: prod.splits)

lemma manager_thread_trace:
  "trace (fst (manager_thread h w ts)) =
     trace w @ thread_start_calls (ignore_list h w)
     @ emitted (lw (snd (thread_start h w))) (fst (manager_thread h w ts))"
  using emits_onlyD [OF manager_loop_emits [where ign = "ignore_list h w" and s = "snd (thread_start h w)" and h = h and ts = ts]]
  by (simp add: manager_thread_simps thread_start_simps)

lemma manager_thread_emits:
  "emits_only (thread_event (ignore_list h w)) w (fst (manager_thread h w ts))"
proof -
  let ?P = "thread_event (ignore_list h w)"
  have "emits_only ?P w (lw (snd (thread_start h w)))"
    by (rule emits_onlyI [OF thread_start_simps(2)]) (simp add: thread_event_def list_all_iff)
  moreover have "emits_only ?P (lw (snd (thread_start h w))) (fst (manager_thread h w ts))"
    unfolding manager_thread_simps
    by (rule emits_only_mono [OF manager_loop_emits]) (simp add: thread_event_def)
  ultimately show ?thesis by (rule emits_only_trans)
qed

section \<open>Teardown and the power action\<close>

lemma manager_cleanup_simps:
  "trace (manager_cleanup h w) =
     trace w @ map (\<lambda>p. Stop (pname p) False) (managed_processes w)
     @ map (\<lambda>p. Stop (pname p) True) (map (stop_proc h False) (managed_processes w))
     @ [Info ''everything is dead'']"
  "managed_processes (manager_cleanup h w) =
     map (\<lambda>p. stop_proc h True (stop_proc h False p)) (managed_processes w)"
  "params (manager_cleanup h w) = params w"
  by (simp_all add: manager_cleanup_def Let_def for_each_simps emit_simps comp_def)

lemma power_action_cong: "params w' = params w \<Longrightarrow> power_action w' = power_action w"
  by (simp add: power_action_def params_get_bool_def)

lemma power_dispatch_simps:
  "trace (power_dispatch w) = trace w @ power_action w"
  "params (power_dispatch w) = params w"
  "managed_processes (power_dispatch w) = managed_processes w"
  by (simp_all add: power_dispatch_def)

lemma power_action_quiet:
  "reported (power_action w) = []"
  "count_list (power_action w) (Info ''everything is dead'') = 0"
  by (auto simp: power_action_def reported_def)

lemma stops_quiet:
  "reported (map (\<lambda>p. Stop (pname p) b) ps) = []"
  "count_list (map (\<lambda>p. Stop (pname p) b) ps) (Info ''everything is dead'') = 0"
  "count_list (map (\<lambda>p. Stop (pname p) b) ps) Shutdown = 0"
  by (induction ps) (simp_all add: reported_def)

lemma thread_start_calls_quiet:
  "cleared (thread_start_calls ign) = []"
  "exit_reasons (thread_start_calls ign) = []"
  by (simp_all add: thread_start_calls_def cleared_def exit_reasons_def)

lemma thread_events_quiet:
  "list_all (thread_event ign) evs \<Longrightarrow>
   reported evs = [] \<and> count_list evs (Info ''everything is dead'') = 0
   \<and> count_list evs Shutdown = 0"
  by (induction evs)
     (auto simp: reported_def thread_event_def thread_start_calls_def loop_event_def
           split: event.splits)

lemma init_events_quiet:
  "list_all init_event evs \<Longrightarrow>
   count_list evs (Start n) = 0 \<and> count_list evs (Info ''manager start'') = 0
   \<and> count_list evs InstallSigterm = 0"
  by (induction evs) (auto simp: init_event_def split: event.splits)

text \<open>What \<open>main\<close> does after \<open>manager_thread\<close> raised.\<close>

lemma teardown_after_raise:
  assumes run: "manager_thread h w ticks = (w1, Some (Raises e))"
  shows "trace (fst (run_and_teardown h w ticks)) =
           trace w1 @ (if is_Exception e then [PrintExc e, CaptureException e] else [])
           @ map (\<lambda>p. Stop (pname p) False) (managed_processes w1)
           @ map (\<lambda>p. Stop (pname p) True) (map (stop_proc h False) (managed_processes w1))
           @ [Info ''everything is dead'']
           @ (if is_Exception e then power_action w1 else [])"
    and "snd (run_and_teardown h w ticks) = Some (if is_Exception e then Returns else Raises e)"
    and "reported (trace (fst (run_and_teardown h w ticks))) =
           reported (trace w) @ (if is_Exception e then [e] else [])"
    and "count_list (trace (fst (run_and_teardown h w ticks))) (Info ''everything is dead'') =
           count_list (trace w) (Info ''everything is dead'') + 1"
proof -
  let ?rep = "if is_Exception e then [PrintExc e, CaptureException e] else []"
  let ?s1 = "map (\<lambda>p. Stop (pname p) False) (managed_processes w1)"
  let ?s2 = "map (\<lambda>p. Stop (pname p) True) (map (stop_proc h False) (managed_processes w1))"
  let ?pw = "if is_Exception e then power_action w1 else []"
  have pa: "power_action (manager_cleanup h (emit (CaptureException e) (emit (PrintExc e) w1)))
            = power_action w1"
    by (rule power_action_cong) (simp add: manager_cleanup_simps emit_simps)
  show tr: "trace (fst (run_and_teardown h w ticks)) =
              trace w1 @ ?rep @ ?s1 @ ?s2 @ [Info ''everything is dead''] @ ?pw"
    by (simp add: run_and_teardown_def run power_dispatch_simps manager_cleanup_simps emit_simps pa)
  show "snd (run_and_teardown h w ticks) = Some (if is_Exception e then Returns else Raises e)"
    by (simp add: run_and_teardown_def run)
  have w1: "w1 = fst (manager_thread h w ticks)" by (simp add: run)
  from emits_onlyD [OF manager_thread_emits [of h w ticks]]
  have t1: "trace w1 = trace w @ emitted w w1"
    and q: "list_all (thread_event (ignore_list h w)) (emitted w w1)"
    unfolding w1 by simp_all
  note quiet = thread_events_quiet [OF q]
  have r1: "reported (trace w1) = reported (trace w)"
    using quiet by (subst t1) (simp add: reported_simps)
  have c1: "count_list (trace w1) (Info ''everything is dead'')
            = count_list (trace w) (Info ''everything is dead'')"
    using quiet by (subst t1) simp
  have rr: "reported ?rep = (if is_Exception e then [e] else [])"
    by (simp add: reported_def)
  have rp: "reported ?pw = []" by (simp add: power_action_quiet reported_simps)
  have cr: "count_list ?rep (Info ''everything is dead'') = 0" by simp
  have cp: "count_list ?pw (Info ''everything is dead'') = 0" by (simp add: power_action_quiet)
  show "reported (trace (fst (run_and_teardown h w ticks))) =
           reported (trace w) @ (if is_Exception e then [e] else [])"
    unfolding tr reported_simps(2) r1 rr rp stops_quiet by (simp add: reported_def)
  show "count_list (trace (fst (run_and_teardown h w ticks))) (Info ''everything is dead'') =
           count_list (trace w) (Info ''everything is dead'') + 1"
    unfolding tr count_list_append c1 cr cp stops_quiet by simp
qed

lemma manager_tick_interrupted:
  "raised_at AtUpdate t = Some e \<Longrightarrow>
     params (lw (fst (manager_tick h ign t s))) = apply_writes (store_writes t) (params (lw s))"
  by (simp add: manager_tick_def Let_def)

lemma manager_tick_raises:
  "raised_at AtUpdate t = Some e \<Longrightarrow> snd (manager_tick h ign t s) = Raise e"
  "raised_at AtUpdate t = None \<Longrightarrow> raised_at AtEnsureRunning t = Some e \<Longrightarrow>
     snd (manager_tick h ign t s) = Raise e"
  "raised_at AtUpdate t = None \<Longrightarrow> raised_at AtEnsureRunning t = Some e \<Longrightarrow>
     params (lw (fst (manager_tick h ign t s))) =
       params (lw (tick_sample h t
         (s\<lparr>lw := (lw s)\<lparr>params := apply_writes (store_writes t) (params (lw s))\<rparr>\<rparr>)))"
  by (simp_all add: manager_tick_def Let_def)

lemma tick_sample_steady:
  "started t = started_prev s \<Longrightarrow> params (lw (tick_sample h t s)) = params (lw s)"
  by (simp add: tick_sample_def on_transition_def Let_def emit_simps)

section \<open>Iterations in which no flag is set\<close>

lemma shutdown_flags_unset:
  "\<forall>p \<in> set ps. \<not> params_get_bool w p \<Longrightarrow> shutdown_flags h ts x ps (w, b) = (w, Inr b)"
  by (induction ps) (simp_all add: shutdown_flags.simps)

lemma manager_tick_quiet:
  assumes f: "fault t = None" and wr: "store_writes t = []"
    and unset: "\<forall>p \<in> set [''DoUninstall'', ''DoShutdown'', ''DoReboot'']. params (lw s) p \<noteq> Some ''1''"
    and host: "\<And>st m p. p \<in> set [''DoUninstall'', ''DoShutdown'', ''DoReboot''] \<Longrightarrow>
                 m p \<noteq> Some ''1'' \<Longrightarrow> write_onroad_store h st m p \<noteq> Some ''1''"
  shows "snd (manager_tick h ign t s) = Continue"
    and "\<forall>p \<in> set [''DoUninstall'', ''DoShutdown'', ''DoReboot''].
           params (lw (fst (manager_tick h ign t s))) p \<noteq> Some ''1''"
proof -
  let ?F = "[''DoUninstall'', ''DoShutdown'', ''DoReboot'']"
  let ?s1 = "tick_sample h t s"
  let ?s2 = "tick_supervise h ign t ?s1"
  let ?w = "emit (Send (map get_process_state_msg (managed_processes (lw ?s2)))) (lw ?s2)"
  have s0: "s\<lparr>lw := (lw s)\<lparr>params := apply_writes (store_writes t) (params (lw s))\<rparr>\<rparr> = s"
    by (simp add: wr)
  have r: "raised_at c t = None" for c by (simp add: raised_at_def f)
  have p1: "\<forall>p \<in> set ?F. params (lw ?s1) p \<noteq> Some ''1''"
  proof
    fix p assume p: "p \<in> set ?F"
    with unset have a: "params (lw s) p \<noteq> Some ''1''" by blast
    have b: "(\<lambda>k. if key_flags h k c then None else params (lw s) k) p \<noteq> Some ''1''" for c
      using a by simp
    have h1: "write_onroad_store h st (params (lw s)) p \<noteq> Some ''1''" for st
      by (rule host) (rule p, rule a)
    have h2: "write_onroad_store h st (\<lambda>k. if key_flags h k c then None else params (lw s) k) p
                \<noteq> Some ''1''" for st c
      by (rule host) (rule p, rule b)
    show "params (lw ?s1) p \<noteq> Some ''1''"
      using a h1 h2
      by (simp add: tick_sample_def on_transition_def Let_def emit_simps clear_all_simps
                    write_onroad_simps cong: if_cong)
  qed
  have p2: "\<forall>p \<in> set ?F. \<not> params_get_bool ?w p"
    using p1 by (simp add: params_get_bool_def emit_simps tick_supervise_simps)
  have sf: "shutdown_flags h (now t) (raised_at AtWarning t) ?F (?w, False) = (?w, Inr False)"
    using p2 by (rule shutdown_flags_unset)
  have sf': "shutdown_flags h (now t) None ?F (?w, False) = (?w, Inr False)"
    using p2 by (rule shutdown_flags_unset)
  have tk: "manager_tick h ign t s = (fst (tick_publish h t ?s2), Continue)"
    by (simp add: manager_tick_def Let_def s0 r tick_publish_def sf sf')
  show "snd (manager_tick h ign t s) = Continue" by (simp add: tk)
  show "\<forall>p \<in> set ?F. params (lw (fst (manager_tick h ign t s))) p \<noteq> Some ''1''"
    using p1 by (simp add: tk tick_publish_def Let_def sf emit_simps tick_supervise_simps)
qed

lemma manager_loop_quiet:
  assumes host: "\<And>st m p. p \<in> set [''DoUninstall'', ''DoShutdown'', ''DoReboot''] \<Longrightarrow>
                 m p \<noteq> Some ''1'' \<Longrightarrow> write_onroad_store h st m p \<noteq> Some ''1''"
  shows "\<forall>t \<in> set ts. fault t = None \<and> store_writes t = [] \<Longrightarrow>
         \<forall>p \<in> set [''DoUninstall'', ''DoShutdown'', ''DoReboot'']. params (lw s) p \<noteq> Some ''1'' \<Longrightarrow>
         snd (manager_loop h ign s ts) = None"
proof (induction ts arbitrary: s)
  case Nil
  show ?case by simp
next
  case (Cons t ts)
  have f: "fault t = None" and wr: "store_writes t = []" using Cons.prems(1) by simp_all
  have c: "snd (manager_tick h ign t s) = Continue"
    by (rule manager_tick_quiet(1) [OF f wr Cons.prems(2) host])
  have p: "\<forall>p \<in> set [''DoUninstall'', ''DoShutdown'', ''DoReboot''].
             params (lw (fst (manager_tick h ign t s))) p \<noteq> Some ''1''"
    by (rule manager_tick_quiet(2) [OF f wr Cons.prems(2) host])
  have "snd (manager_loop h ign (fst (manager_tick h ign t s)) ts) = None"
    using Cons.prems(1) p by (intro Cons.IH) simp_all
  then show ?case unfolding manager_loop_step(1) [OF c] .
qed

section \<open>Claims about the start-up\<close>

lemma distinct_default_params: "distinct (map fst (default_params h))"
  by (simp add: default_params_def)

text \<open>
  C5. The seeding pass of \<open>manager_init\<close> puts a pair of the default table exactly when its
  key is unset in the store: the puts it makes are the pairs of the table whose key had no
  value, in the table's order. A key that has a value after one pass keeps that value in a
  second pass (also when the clock of the second pass differs), and a second pass with the
  same table changes nothing at all.
\<close>

theorem default_seeding_idempotent:
  "trace (set_unset_params (default_params h) w) =
     trace w @ map (\<lambda>(k, v). Put k v)
                 (filter (\<lambda>(k, v). params_get w k = None) (default_params h))
   \<and> (\<forall>k. params_get (set_unset_params (default_params h) w) k \<noteq> None \<longrightarrow>
          params_get (set_unset_params (default_params h') (set_unset_params (default_params h) w)) k
            = params_get (set_unset_params (default_params h) w) k)
   \<and> set_unset_params (default_params h) (set_unset_params (default_params h) w)
       = set_unset_params (default_params h) w"
proof (intro conjI allI impI)
  show "trace (set_unset_params (default_params h) w) =
     trace w @ map (\<lambda>(k, v). Put k v)
                 (filter (\<lambda>(k, v). params_get w k = None) (default_params h))"
    by (rule seed_trace [OF distinct_default_params])
next
  fix k
  assume "params_get (set_unset_params (default_params h) w) k \<noteq> None"
  then show "params_get (set_unset_params (default_params h') (set_unset_params (default_params h) w)) k
            = params_get (set_unset_params (default_params h) w) k"
    by (auto simp: params_get_def seed_params [of "default_params h'"] split: option.splits)
next
  show "set_unset_params (default_params h) (set_unset_params (default_params h) w)
       = set_unset_params (default_params h) w"
    by (rule seed_fixpoint)
qed

theorem default_seeding_idempotent_witness:
  "params_get (set_unset_params (default_params h0) (w0\<lparr>params := [''GsmMetered'' \<mapsto> ''0'']\<rparr>))
     ''GsmMetered'' = Some ''0''
   \<and> params_get (set_unset_params (default_params h0)
        (set_unset_params (default_params h0) (w0\<lparr>params := [''GsmMetered'' \<mapsto> ''0'']\<rparr>)))
     ''GsmMetered'' = Some ''0''"
proof -
  have first: "params_get (set_unset_params (default_params h0) (w0\<lparr>params := [''GsmMetered'' \<mapsto> ''0'']\<rparr>))
     ''GsmMetered'' = Some ''0''"
    by (simp add: params_get_def seed_params)
  with default_seeding_idempotent [of h0 "w0\<lparr>params := [''GsmMetered'' \<mapsto> ''0'']\<rparr>" h0]
  show ?thesis by simp
qed

section \<open>Claims about errors, teardown and the power action\<close>

text \<open>
  C2 (amended). When an error leaves \<open>manager_thread\<close>, \<open>main\<close> runs \<open>manager_cleanup\<close> exactly
  once, after any report and before anything else: the calls that follow the loop are the
  report, the non-blocking stops, the blocking stops and the final log line. The error is
  reported to the error-reporting collaborator exactly when it is an \<open>Exception\<close>; then
  \<open>main\<close> goes on to the power action and returns. An exit request (\<open>SystemExit\<close>, what the
  handler of the termination signal raises) is not reported and leaves \<open>main\<close> after the
  teardown.
\<close>

theorem teardown_after_escaping_error:
  "manager_thread h w ticks = (w1, Some (Raises e)) \<Longrightarrow>
     trace (fst (run_and_teardown h w ticks)) =
       trace w1 @ (if is_Exception e then [PrintExc e, CaptureException e] else [])
       @ map (\<lambda>p. Stop (pname p) False) (managed_processes w1)
       @ map (\<lambda>p. Stop (pname p) True) (map (stop_proc h False) (managed_processes w1))
       @ [Info ''everything is dead'']
       @ (if is_Exception e then power_action w1 else [])
     \<and> reported (trace (fst (run_and_teardown h w ticks))) =
         reported (trace w) @ (if is_Exception e then [e] else [])
     \<and> count_list (trace (fst (run_and_teardown h w ticks))) (Info ''everything is dead'') =
         count_list (trace w) (Info ''everything is dead'') + 1
     \<and> snd (run_and_teardown h w ticks) = Some (if is_Exception e then Returns else Raises e)"
  by (intro conjI teardown_after_raise)

theorem teardown_after_escaping_error_witness:
  "snd (manager_thread h0 w0 [crash_tick]) = Some (Raises (Exception ''boom''))
   \<and> reported (trace (fst (run_and_teardown h0 w0 [crash_tick]))) = [Exception ''boom'']
   \<and> count_list (trace (fst (run_and_teardown h0 w0 [crash_tick]))) (Info ''everything is dead'') = 1
   \<and> snd (run_and_teardown h0 w0 [crash_tick]) = Some Returns"
proof -
  have u: "raised_at AtUpdate crash_tick = None"
    and en: "raised_at AtEnsureRunning crash_tick = Some (Exception ''boom'')"
    by (simp_all add: raised_at_def crash_tick_def quiet_tick_def)
  have r: "snd (manager_thread h0 w0 [crash_tick]) = Some (Raises (Exception ''boom''))"
    unfolding manager_thread_simps
    by (simp add: manager_loop_step(3) [OF manager_tick_raises(2) [OF u en]])
  then have run: "manager_thread h0 w0 [crash_tick] =
      (fst (manager_thread h0 w0 [crash_tick]), Some (Raises (Exception ''boom'')))"
    by (simp add: prod_eq_iff)
  have t0: "trace w0 = []" by (simp add: w0_def)
  from teardown_after_escaping_error [OF run, THEN conjunct2] r show ?thesis
    by (simp add: t0 reported_def)
qed

text \<open>
  C2 as stated fails for the termination signal: when \<open>sm.update()\<close> is interrupted by the
  handler's \<open>SystemExit 1\<close>, the teardown runs once but nothing is reported.
\<close>

theorem sigterm_is_not_reported:
  "snd (manager_thread h0 w0 [sigterm_tick]) = Some (Raises (SystemExit 1))
   \<and> reported (trace (fst (run_and_teardown h0 w0 [sigterm_tick]))) = []
   \<and> count_list (trace (fst (run_and_teardown h0 w0 [sigterm_tick]))) (Info ''everything is dead'') = 1"
proof -
  have u: "raised_at AtUpdate sigterm_tick = Some (SystemExit 1)"
    by (simp add: raised_at_def sigterm_tick_def quiet_tick_def)
  have r: "snd (manager_thread h0 w0 [sigterm_tick]) = Some (Raises (SystemExit 1))"
    unfolding manager_thread_simps
    by (simp add: manager_loop_step(3) [OF manager_tick_raises(1) [OF u]])
  then have run: "manager_thread h0 w0 [sigterm_tick] =
      (fst (manager_thread h0 w0 [sigterm_tick]), Some (Raises (SystemExit 1)))"
    by (simp add: prod_eq_iff)
  have t0: "trace w0 = []" by (simp add: w0_def)
  from teardown_after_raise(3,4) [OF run] r show ?thesis
    by (simp add: t0 reported_def)
qed

text \<open>
  C9 (amended). The power action after the loop is chosen from the three flags as the store
  holds them when the loop has ended, in the order uninstall, reboot, shutdown; neither the
  exit reason nor \<open>is_running_on_wsl2\<close> takes part. When an \<open>Exception\<close> leaves the loop,
  the calls of \<open>main\<close> end with the action for the flags in the store; when what leaves
  the loop is not an \<open>Exception\<close> (the \<open>SystemExit\<close> of the termination signal), the
  calls of \<open>main\<close> end with the teardown and no power action is taken. When no warning of
  the flag loop raised, a loop left by an error wrote no \<open>LastManagerExitReason\<close> in that
  run.
\<close>

theorem power_action_after_exception:
  "manager_thread h w ticks = (w1, Some (Raises e)) \<Longrightarrow>
     trace (fst (run_and_teardown h w ticks)) =
       trace w1 @ (if is_Exception e then [PrintExc e, CaptureException e] else [])
       @ map (\<lambda>p. Stop (pname p) False) (managed_processes w1)
       @ map (\<lambda>p. Stop (pname p) True) (map (stop_proc h False) (managed_processes w1))
       @ [Info ''everything is dead'']
       @ (if is_Exception e then power_action w1 else [])
     \<and> power_action w1 =
         (if params w1 ''DoUninstall'' = Some ''1'' then [Warning ''uninstalling'', Uninstall]
          else if params w1 ''DoReboot'' = Some ''1'' then [Warning ''reboot'', Reboot]
          else if params w1 ''DoShutdown'' = Some ''1'' then [Warning ''shutdown'', Shutdown]
          else [])
     \<and> (list_all (\<lambda>t. raised_at AtWarning t = None) ticks \<longrightarrow>
          exit_reasons (trace w1) = exit_reasons (trace w))"
proof (intro conjI impI)
  assume run: "manager_thread h w ticks = (w1, Some (Raises e))"
  show "trace (fst (run_and_teardown h w ticks)) =
       trace w1 @ (if is_Exception e then [PrintExc e, CaptureException e] else [])
       @ map (\<lambda>p. Stop (pname p) False) (managed_processes w1)
       @ map (\<lambda>p. Stop (pname p) True) (map (stop_proc h False) (managed_processes w1))
       @ [Info ''everything is dead'']
       @ (if is_Exception e then power_action w1 else [])"
    by (rule teardown_after_raise(1) [OF run])
  show "power_action w1 =
         (if params w1 ''DoUninstall'' = Some ''1'' then [Warning ''uninstalling'', Uninstall]
          else if params w1 ''DoReboot'' = Some ''1'' then [Warning ''reboot'', Reboot]
          else if params w1 ''DoShutdown'' = Some ''1'' then [Warning ''shutdown'', Shutdown]
          else [])"
    by (simp add: power_action_def params_get_bool_def)
  assume quiet: "list_all (\<lambda>t. raised_at AtWarning t = None) ticks"
  have w1: "w1 = fst (manager_thread h w ticks)" by (simp add: run)
  have "snd (manager_loop h (ignore_list h w) (snd (thread_start h w)) ticks) \<noteq> Some Returns"
    using run by (simp add: manager_thread_simps(1) [symmetric])
  then have "exit_reasons (emitted (lw (snd (thread_start h w))) w1) = []"
    unfolding w1 manager_thread_simps(2) using quiet by (rule manager_loop_reasons)
  then show "exit_reasons (trace w1) = exit_reasons (trace w)"
    unfolding w1 by (subst manager_thread_trace) (simp add: exit_reasons_simps thread_start_calls_quiet)
qed

theorem power_action_after_exception_witness:
  "is_running_on_wsl2 h_wsl
   \<and> snd (manager_thread h_wsl w0 [crash_tick]) = Some (Raises (Exception ''boom''))
   \<and> power_action (fst (manager_thread h_wsl w0 [crash_tick])) = [Warning ''shutdown'', Shutdown]
   \<and> exit_reasons (trace (fst (manager_thread h_wsl w0 [crash_tick]))) = []
   \<and> last (trace (fst (run_and_teardown h_wsl w0 [crash_tick]))) = Shutdown"
proof -
  have g: "is_running_on_wsl2 h_wsl"
    by (simp add: is_running_on_wsl2_def h_wsl_def h0_def)
  have u: "raised_at AtUpdate crash_tick = None"
    and en: "raised_at AtEnsureRunning crash_tick = Some (Exception ''boom'')"
    and quiet: "list_all (\<lambda>t. raised_at AtWarning t = None) [crash_tick]"
    by (simp_all add: raised_at_def crash_tick_def quiet_tick_def)
  note step = manager_loop_step(3) [OF manager_tick_raises(2) [OF u en]]
  have r: "snd (manager_thread h_wsl w0 [crash_tick]) = Some (Raises (Exception ''boom''))"
    unfolding manager_thread_simps by (simp add: step)
  then have run: "manager_thread h_wsl w0 [crash_tick] =
      (fst (manager_thread h_wsl w0 [crash_tick]), Some (Raises (Exception ''boom'')))"
    by (simp add: prod_eq_iff)
  have st: "started crash_tick = False" by (simp add: crash_tick_def quiet_tick_def)
  have p: "params (fst (manager_thread h_wsl w0 [crash_tick])) ''DoShutdown'' = Some ''1''"
          "params (fst (manager_thread h_wsl w0 [crash_tick])) ''DoUninstall'' = None"
          "params (fst (manager_thread h_wsl w0 [crash_tick])) ''DoReboot'' = None"
  proof -
    have pw: "params (fst (manager_thread h_wsl w0 [crash_tick])) =
                apply_writes (store_writes crash_tick) (write_onroad_store h_wsl False (params w0))"
      unfolding manager_thread_simps
      by (simp add: step manager_tick_raises(3) [OF u en] tick_sample_steady st thread_start_simps)
    show "params (fst (manager_thread h_wsl w0 [crash_tick])) ''DoShutdown'' = Some ''1''"
         "params (fst (manager_thread h_wsl w0 [crash_tick])) ''DoUninstall'' = None"
         "params (fst (manager_thread h_wsl w0 [crash_tick])) ''DoReboot'' = None"
      unfolding pw by (simp_all add: crash_tick_def quiet_tick_def h_wsl_def h0_def w0_def)
  qed
  have t0: "trace w0 = []" by (simp add: w0_def)
  from power_action_after_exception [OF run] g r p quiet show ?thesis
    by (simp add: t0 exit_reasons_def)
qed

text \<open>
  C9 as stated fails in two places. With \<open>DoShutdown\<close> set in the store, the \<open>SystemExit 1\<close>
  of the termination signal leaves the loop and \<open>main\<close> ends after the teardown: shutdown
  is never called. And an \<open>Exception\<close> raised by the warning of the flag loop leaves the loop
  after the exit reason was written.
\<close>

theorem exit_request_skips_power_action:
  "snd (manager_thread h0 w0 [sigterm_shutdown_tick]) = Some (Raises (SystemExit 1))
   \<and> params_get_bool (fst (manager_thread h0 w0 [sigterm_shutdown_tick])) ''DoShutdown''
   \<and> count_list (trace (fst (run_and_teardown h0 w0 [sigterm_shutdown_tick]))) Shutdown = 0
   \<and> last (trace (fst (run_and_teardown h0 w0 [sigterm_shutdown_tick]))) = Info ''everything is dead''
   \<and> snd (manager_thread h0 w0 [late_crash_tick]) = Some (Raises (Exception ''boom''))
   \<and> exit_reasons (trace (fst (manager_thread h0 w0 [late_crash_tick])))
       = [''DoShutdown 2024-01-01 00:00:01'']"
proof -
  have u: "raised_at AtUpdate sigterm_shutdown_tick = Some (SystemExit 1)"
    by (simp add: raised_at_def sigterm_shutdown_tick_def quiet_tick_def)
  note step = manager_loop_step(3) [OF manager_tick_raises(1) [OF u]]
  have r: "snd (manager_thread h0 w0 [sigterm_shutdown_tick]) = Some (Raises (SystemExit 1))"
    unfolding manager_thread_simps by (simp add: step)
  then have run: "manager_thread h0 w0 [sigterm_shutdown_tick] =
      (fst (manager_thread h0 w0 [sigterm_shutdown_tick]), Some (Raises (SystemExit 1)))"
    by (simp add: prod_eq_iff)
  have pw: "params (fst (manager_thread h0 w0 [sigterm_shutdown_tick])) =
              apply_writes (store_writes sigterm_shutdown_tick)
                (write_onroad_store h0 False (params w0))"
    unfolding manager_thread_simps
    by (simp add: step manager_tick_interrupted [OF u] thread_start_simps)
  have p: "params_get_bool (fst (manager_thread h0 w0 [sigterm_shutdown_tick])) ''DoShutdown''"
    unfolding params_get_bool_def pw
    by (simp add: sigterm_shutdown_tick_def quiet_tick_def h0_def w0_def)
  have t0: "trace w0 = []" by (simp add: w0_def)
  from emits_onlyD [OF manager_thread_emits [of h0 w0 "[sigterm_shutdown_tick]"]]
  have t1: "trace (fst (manager_thread h0 w0 [sigterm_shutdown_tick])) =
              emitted w0 (fst (manager_thread h0 w0 [sigterm_shutdown_tick]))"
    and q: "list_all (thread_event (ignore_list h0 w0))
              (emitted w0 (fst (manager_thread h0 w0 [sigterm_shutdown_tick])))"
    by (simp_all add: t0)
  have c1: "count_list (trace (fst (manager_thread h0 w0 [sigterm_shutdown_tick]))) Shutdown = 0"
    using thread_events_quiet [OF q] by (simp add: t1 [symmetric])
  note tr = teardown_after_raise(1) [OF run]
  have c: "count_list (trace (fst (run_and_teardown h0 w0 [sigterm_shutdown_tick]))) Shutdown = 0"
    unfolding tr by (simp add: c1 stops_quiet del: map_map)
  have l: "last (trace (fst (run_and_teardown h0 w0 [sigterm_shutdown_tick])))
             = Info ''everything is dead''"
    unfolding tr by simp
  have late: "snd (manager_thread h0 w0 [late_crash_tick]) = Some (Raises (Exception ''boom''))
     \<and> exit_reasons (trace (fst (manager_thread h0 w0 [late_crash_tick])))
         = [''DoShutdown 2024-01-01 00:00:01'']"
    by (simp add: manager_thread_def thread_start_def manager_loop.simps manager_tick_def
                  tick_sample_def tick_supervise_def tick_publish_def on_transition_def
                  shutdown_flags.simps raised_at_def late_crash_tick_def quiet_tick_def
                  is_running_on_wsl2_def ignore_list_def ensure_running_def
                  write_onroad_params_def emit_def params_get_def params_put_def
                  params_get_bool_def exit_reasons_def h0_def w0_def supervisor0_def Let_def)
  from r p c l late show ?thesis by simp
qed

text \<open>
  C1 (the code departs from it). The store holds \<open>DoUninstall\<close> and \<open>DoShutdown\<close> in the same
  iteration, on a host where \<open>is_running_on_wsl2\<close> is false. The loop ends after that
  iteration, but the loop over the flags writes the reason twice and the last write stays:
  the stored reason names \<open>DoShutdown\<close>, while the action chosen after the loop is uninstall.
\<close>

theorem exit_reason_differs_from_power_action:
  "\<not> is_running_on_wsl2 h0
   \<and> snd (manager_thread h0 w0 [flags_tick]) = Some Returns
   \<and> exit_reasons (trace (fst (manager_thread h0 w0 [flags_tick])))
       = [''DoUninstall 2024-01-01 00:00:01'', ''DoShutdown 2024-01-01 00:00:01'']
   \<and> params_get (fst (manager_thread h0 w0 [flags_tick])) ''LastManagerExitReason''
       = Some ''DoShutdown 2024-01-01 00:00:01''
   \<and> power_action (fst (manager_thread h0 w0 [flags_tick])) = [Warning ''uninstalling'', Uninstall]"
  by (simp add: manager_thread_def thread_start_def manager_loop.simps manager_tick_def
                tick_sample_def tick_supervise_def tick_publish_def on_transition_def
                shutdown_flags.simps raised_at_def flags_tick_def quiet_tick_def
                is_running_on_wsl2_def ignore_list_def ensure_running_def write_onroad_params_def
                emit_def params_get_def params_put_def params_get_bool_def power_action_def
                exit_reasons_def h0_def w0_def supervisor0_def Let_def)

section \<open>Claims about the loop\<close>

text \<open>
  C3. The sampled states are off-road, off-road, on-road, on-road, off-road, and the loop
  runs through the five iterations (\<open>started_prev\<close> starts as off-road). After the first
  \<open>n\<close> iterations the categories cleared by \<open>manager_thread\<close> are: none for \<open>n \<le> 2\<close>; the
  on-road category, once, after the iteration with index 2 and still after the next; the
  on-road and then the off-road category, once each, after the iteration with index 4.
  No iteration whose sample equals the previous one clears a category.
\<close>

theorem transition_scenario:
  "map started ticks = [False, False, True, True, False] \<Longrightarrow>
   snd (manager_thread h w ticks) = None \<Longrightarrow>
     (\<forall>n. cleared (trace (fst (manager_thread h w (take n ticks)))) =
            cleared (trace w) @
            (if n \<le> 2 then []
             else if n \<le> 4 then [CLEAR_ON_ONROAD_TRANSITION]
             else [CLEAR_ON_ONROAD_TRANSITION, CLEAR_ON_OFFROAD_TRANSITION]))
     \<and> (\<forall>t s ign. started t = started_prev s \<longrightarrow>
            cleared (emitted (lw s) (lw (fst (manager_tick h ign t s)))) = [])"
proof (intro conjI allI impI)
  fix n
  assume samples: "map started ticks = [False, False, True, True, False]"
    and running: "snd (manager_thread h w ticks) = None"
  let ?ign = "ignore_list h w"
  let ?s0 = "snd (thread_start h w)"
  have "snd (manager_loop h ?ign ?s0 ticks) = None"
    using running by (simp add: manager_thread_simps)
  then have pre: "snd (manager_loop h ?ign ?s0 (take n ticks)) = None"
    by (rule manager_loop_prefix)
  have cl: "cleared (emitted (lw ?s0) (fst (manager_thread h w (take n ticks))))
            = edge_clears False (take n [False, False, True, True, False])"
    unfolding manager_thread_simps(2) manager_loop_cleared [OF pre]
    by (simp add: thread_start_simps take_map [symmetric] samples)
  have tr: "cleared (trace (fst (manager_thread h w (take n ticks)))) =
            cleared (trace w) @ edge_clears False (take n [False, False, True, True, False])"
    by (subst manager_thread_trace) (simp add: cleared_simps(1,2) thread_start_calls_quiet cl)
  have "n = 0 \<or> n = 1 \<or> n = 2 \<or> n = 3 \<or> n = 4 \<or> 5 \<le> n" by arith
  then have "edge_clears False (take n [False, False, True, True, False]) =
            (if n \<le> 2 then []
             else if n \<le> 4 then [CLEAR_ON_ONROAD_TRANSITION]
             else [CLEAR_ON_ONROAD_TRANSITION, CLEAR_ON_OFFROAD_TRANSITION])"
    by (elim disjE) simp_all
  with tr show "cleared (trace (fst (manager_thread h w (take n ticks)))) =
            cleared (trace w) @
            (if n \<le> 2 then []
             else if n \<le> 4 then [CLEAR_ON_ONROAD_TRANSITION]
             else [CLEAR_ON_ONROAD_TRANSITION, CLEAR_ON_OFFROAD_TRANSITION])"
    by simp
next
  fix t :: tick and s :: loop_state and ign :: "string list"
  assume st: "started t = started_prev s"
  show "cleared (emitted (lw s) (lw (fst (manager_tick h ign t s)))) = []"
  proof (cases "raised_at AtUpdate t")
    case None
    from manager_tick_emitted(4) [OF None, where h = h and ign = ign and s = s] st
    show ?thesis by simp
  next
    case (Some e)
    from manager_tick_emitted(3) [OF Some, where h = h and ign = ign and s = s]
    show ?thesis by (simp add: cleared_def)
  qed
qed

theorem transition_scenario_witness:
  "map started road_ticks = [False, False, True, True, False]
   \<and> snd (manager_thread h0 w0 road_ticks) = None
   \<and> cleared (trace (fst (manager_thread h0 w0 (take 2 road_ticks)))) = []
   \<and> cleared (trace (fst (manager_thread h0 w0 (take 3 road_ticks)))) = [CLEAR_ON_ONROAD_TRANSITION]
   \<and> cleared (trace (fst (manager_thread h0 w0 (take 4 road_ticks)))) = [CLEAR_ON_ONROAD_TRANSITION]
   \<and> cleared (trace (fst (manager_thread h0 w0 (take 5 road_ticks)))) =
       [CLEAR_ON_ONROAD_TRANSITION, CLEAR_ON_OFFROAD_TRANSITION]"
proof -
  have samples: "map started road_ticks = [False, False, True, True, False]"
    by (simp add: road_ticks_def quiet_tick_def)
  have host: "\<And>st m p. p \<in> set [''DoUninstall'', ''DoShutdown'', ''DoReboot''] \<Longrightarrow>
                 m p \<noteq> Some ''1'' \<Longrightarrow> write_onroad_store h0 st m p \<noteq> Some ''1''"
    by (auto simp: h0_def)
  have running: "snd (manager_thread h0 w0 road_ticks) = None"
    unfolding manager_thread_simps
    by (rule manager_loop_quiet [OF host])
       (auto simp: road_ticks_def quiet_tick_def thread_start_simps h0_def w0_def)
  have t0: "cleared (trace w0) = []" by (simp add: w0_def cleared_def)
  from transition_scenario [OF samples running, THEN conjunct1] samples running t0
  show ?thesis by simp
qed

text \<open>
  C10. Whatever the iterations bring, the calls of \<open>manager_thread\<close> before its first
  \<open>sm.update()\<close> are the set-up of the logger and of the bus endpoints, then
  \<open>write_onroad_params\<close> for the off-road state and one \<open>ensure_running\<close> with
  \<open>started = False\<close> and the ignore list computed from the store and the environment at entry.
\<close>

theorem offroad_setup_before_first_sample:
  "takeWhile (\<lambda>e. e \<noteq> SmUpdate) (emitted w (fst (manager_thread h w ticks))) =
     [Bind ''manager'', Info ''manager start'', Info ''environ'', NewSubMaster, NewPubMaster,
      WriteOnroadParams False, EnsureRunning False (ignore_list h w)]
   \<and> fst (thread_start h w) = ignore_list h w
   \<and> params (lw (snd (thread_start h w))) = write_onroad_store h False (params w)"
proof (intro conjI)
  let ?E = "emitted (lw (snd (thread_start h w))) (fst (manager_thread h w ticks))"
  have em: "emitted w (fst (manager_thread h w ticks)) =
              [Bind ''manager'', Info ''manager start'', Info ''environ'', NewSubMaster, NewPubMaster,
      WriteOnroadParams False, EnsureRunning False (ignore_list h w)] @ ?E"
    by (rule emitted_append) (subst manager_thread_trace, simp add: thread_start_calls_def)
  have hd: "?E = [] \<or> (\<exists>evs'. ?E = SmUpdate # evs')"
    unfolding manager_thread_simps(2) by (rule manager_loop_head)
  then have "takeWhile (\<lambda>e. e \<noteq> SmUpdate) ?E = []" by auto
  then show "takeWhile (\<lambda>e. e \<noteq> SmUpdate) (emitted w (fst (manager_thread h w ticks))) =
     [Bind ''manager'', Info ''manager start'', Info ''environ'', NewSubMaster, NewPubMaster,
      WriteOnroadParams False, EnsureRunning False (ignore_list h w)]"
    unfolding em by simp
  show "fst (thread_start h w) = ignore_list h w" by (rule thread_start_simps(1))
  show "params (lw (snd (thread_start h w))) = write_onroad_store h False (params w)"
    by (rule thread_start_simps(5))
qed

theorem offroad_setup_before_first_sample_witness:
  "takeWhile (\<lambda>e. e \<noteq> SmUpdate) (emitted w0 (fst (manager_thread h0 w0 road_ticks))) =
     [Bind ''manager'', Info ''manager start'', Info ''environ'', NewSubMaster, NewPubMaster,
      WriteOnroadParams False, EnsureRunning False []]"
proof -
  have "ignore_list h0 w0 = []"
    by (simp add: ignore_list_def params_get_def h0_def w0_def)
  with offroad_setup_before_first_sample [of w0 h0 road_ticks] show ?thesis by simp
qed

text \<open>
  C4. \<open>manager_cleanup\<close> calls \<open>stop(block=False)\<close> on every managed process in enumeration
  order and only then \<open>stop(block=True)\<close> on every one in the same order, for any number of
  processes. \<open>ManagedProcess.stop\<close> is not part of this file; given that it keeps the name
  and that a blocking stop leaves the process not alive, no managed process is alive when
  \<open>manager_cleanup\<close> returns.
\<close>

theorem two_phase_stop:
  "(\<And>b p. pname (stop_proc h b p) = pname p) \<Longrightarrow>
   (\<And>p. proc (stop_proc h True p) \<noteq> Some True) \<Longrightarrow>
     trace (manager_cleanup h w) =
       trace w @ map (\<lambda>n. Stop n False) (map pname (managed_processes w))
       @ map (\<lambda>n. Stop n True) (map pname (managed_processes w))
       @ [Info ''everything is dead'']
     \<and> map pname (managed_processes (manager_cleanup h w)) = map pname (managed_processes w)
     \<and> (\<forall>p \<in> set (managed_processes (manager_cleanup h w)). proc p \<noteq> Some True)"
  by (simp add: manager_cleanup_simps comp_def)

theorem two_phase_stop_witness:
  "trace (manager_cleanup h0
            (w0\<lparr>managed_processes := [\<lparr>pname = ''ui'', proc = Some True\<rparr>,
                                       \<lparr>pname = ''pandad'', proc = Some True\<rparr>]\<rparr>)) =
     [Stop ''ui'' False, Stop ''pandad'' False, Stop ''ui'' True, Stop ''pandad'' True,
      Info ''everything is dead'']
   \<and> list_all (\<lambda>p. proc p \<noteq> Some True)
        (managed_processes (manager_cleanup h0
            (w0\<lparr>managed_processes := [\<lparr>pname = ''ui'', proc = Some True\<rparr>,
                                       \<lparr>pname = ''pandad'', proc = Some True\<rparr>]\<rparr>)))"
proof -
  have names: "\<And>b p. pname (stop_proc h0 b p) = pname p"
    by (simp add: h0_def stop0_def)
  have blocking: "\<And>p. proc (stop_proc h0 True p) \<noteq> Some True"
    by (simp add: h0_def stop0_def)
  from two_phase_stop [OF names blocking,
      of "w0\<lparr>managed_processes := [\<lparr>pname = ''ui'', proc = Some True\<rparr>,
                                    \<lparr>pname = ''pandad'', proc = Some True\<rparr>]\<rparr>"]
  show ?thesis by (simp add: w0_def list_all_iff)
qed

text \<open>
  C7. The ignore list of \<open>manager_thread\<close> holds exactly: \<open>manage_athenad\<close> and \<open>uploader\<close> when
  \<open>DongleId\<close> is unset or is the unregistered value; \<open>pandad\<close> when \<open>NOBOARD\<close> is set; and every
  non-empty piece of \<open>BLOCK\<close>, where the pieces are the comma-free parts that joined by commas
  give \<open>BLOCK\<close> back. With \<open>BLOCK = "uploader,logcatd"\<close> it contains \<open>uploader\<close> and \<open>logcatd\<close>.
  The list is computed at entry, and every \<open>ensure_running\<close> of the run is called with it.
\<close>

theorem ignore_set_union:
  "set (ignore_list h w) =
     (if params_get w ''DongleId'' = None
         \<or> params_get w ''DongleId'' = Some (UNREGISTERED_DONGLE_ID h)
      then {''manage_athenad'', ''uploader''} else {})
     \<union> (if environ w ''NOBOARD'' \<noteq> None then {''pandad''} else {})
     \<union> {x \<in> set (split_on CHR '','' (case environ w ''BLOCK'' of None \<Rightarrow> [] | Some b \<Rightarrow> b)). x \<noteq> []}
   \<and> (\<forall>b. join '','' (split_on CHR '','' b) = b \<and> (\<forall>x \<in> set (split_on CHR '','' b). CHR '','' \<notin> set x))
   \<and> (environ w ''BLOCK'' = Some ''uploader,logcatd'' \<longrightarrow>
        {''uploader'', ''logcatd''} \<subseteq> set (ignore_list h w))
   \<and> fst (thread_start h w) = ignore_list h w
   \<and> emits_only (\<lambda>e. \<forall>st nr. e = EnsureRunning st nr \<longrightarrow> nr = ignore_list h w) w
        (fst (manager_thread h w ticks))"
proof (intro conjI allI)
  show "set (ignore_list h w) =
     (if params_get w ''DongleId'' = None
         \<or> params_get w ''DongleId'' = Some (UNREGISTERED_DONGLE_ID h)
      then {''manage_athenad'', ''uploader''} else {})
     \<union> (if environ w ''NOBOARD'' \<noteq> None then {''pandad''} else {})
     \<union> {x \<in> set (split_on CHR '','' (case environ w ''BLOCK'' of None \<Rightarrow> [] | Some b \<Rightarrow> b)). x \<noteq> []}"
    by (auto simp: ignore_list_def)
  show "join '','' (split_on CHR '','' b) = b" for b
    using split_on_join [of "CHR '',''" b] by simp
  show "\<forall>x \<in> set (split_on CHR '','' b). CHR '','' \<notin> set x" for b
    by (rule split_on_no_sep)
  show "environ w ''BLOCK'' = Some ''uploader,logcatd'' \<longrightarrow>
        {''uploader'', ''logcatd''} \<subseteq> set (ignore_list h w)"
    by (simp add: ignore_list_def)
  show "fst (thread_start h w) = ignore_list h w" by (rule thread_start_simps(1))
  show "emits_only (\<lambda>e. \<forall>st nr. e = EnsureRunning st nr \<longrightarrow> nr = ignore_list h w) w
        (fst (manager_thread h w ticks))"
    by (rule emits_only_mono [OF manager_thread_emits])
       (auto simp: thread_event_def thread_start_calls_def loop_event_def)
qed

theorem ignore_set_union_witness:
  "set (ignore_list h0 (w0\<lparr>params := Map.empty,
                            environ := [''NOBOARD'' \<mapsto> ''1'', ''BLOCK'' \<mapsto> ''uploader,logcatd'']\<rparr>))
     = {''manage_athenad'', ''uploader'', ''pandad'', ''logcatd''}"
proof -
  let ?w = "w0\<lparr>params := Map.empty,
               environ := [''NOBOARD'' \<mapsto> ''1'', ''BLOCK'' \<mapsto> ''uploader,logcatd'']\<rparr>"
  from ignore_set_union [of h0 ?w "[]", THEN conjunct1]
  show ?thesis by (auto simp: params_get_def)
qed

section \<open>Claims about main and the start-up failures\<close>

lemma init_clear_unset: "params w k = None \<Longrightarrow> params (init_clear h w) k = None"
  by (simp add: init_clear_def Let_def clear_all_simps emit_simps)

lemma default_params_no_passive: "map_of (default_params h) ''Passive'' = None"
  by (simp add: default_params_def)

lemma main_prepare_only:
  assumes "environ w ''PREPAREONLY'' \<noteq> None" and "manager_init h w = (w1, None)"
  shows "main h w ticks =
           (manager_prepare h
              (emit ModelSwitcher (if prebuilt_exists h then emit RemovePrebuilt w1 else w1)),
            Some Returns)"
  using assms by (simp add: main_def Let_def)

lemma prepare_only_run:
  assumes po: "environ w ''PREPAREONLY'' \<noteq> None" and init: "manager_init h w = (w1, None)"
  shows "snd (main h w ticks) = Some Returns"
    and "trace (fst (main h w ticks)) =
           trace w @ emitted w w1 @ (if prebuilt_exists h then [RemovePrebuilt] else [])
           @ [ModelSwitcher] @ map (\<lambda>p. Prepare (pname p)) (managed_processes w)"
    and "list_all init_event (emitted w w1)"
    and "managed_processes (fst (main h w ticks)) = map (prepare_proc h) (managed_processes w)"
proof -
  have w1: "w1 = fst (manager_init h w)" by (simp add: init)
  from emits_onlyD [OF manager_init_emits [of w h]]
  have t1: "trace w1 = trace w @ emitted w w1" and q: "list_all init_event (emitted w w1)"
    unfolding w1 by simp_all
  have mp: "managed_processes w1 = managed_processes w"
    unfolding w1 by (rule manager_init_frame(1))
  show "snd (main h w ticks) = Some Returns"
    by (simp add: main_prepare_only [OF po init])
  show "trace (fst (main h w ticks)) =
           trace w @ emitted w w1 @ (if prebuilt_exists h then [RemovePrebuilt] else [])
           @ [ModelSwitcher] @ map (\<lambda>p. Prepare (pname p)) (managed_processes w)"
    using t1 mp
    by (simp add: main_prepare_only [OF po init] manager_prepare_def for_each_simps emit_simps)
  show "list_all init_event (emitted w w1)" by (rule q)
  show "managed_processes (fst (main h w ticks)) = map (prepare_proc h) (managed_processes w)"
    using mp
    by (simp add: main_prepare_only [OF po init] manager_prepare_def for_each_simps emit_simps)
qed

lemma prepares_quiet:
  "count_list (map (\<lambda>p. Prepare (pname p)) ps) (Start n) = 0"
  "count_list (map (\<lambda>p. Prepare (pname p)) ps) InstallSigterm = 0"
  by (induction ps) simp_all

lemma w_prepare_init: "snd (manager_init h0 w_prepare) = None"
proof (rule manager_init_ok)
  show "environ w_prepare ''PASSIVE'' = Some ''0''" by (simp add: w_prepare_def)
  show "py_int ''0'' = Some 0"
    by (simp add: py_int_def py_nat_def strip_def is_space_def digit_val_def)
  show "register_result h0 = Some ''d0ng1e''" by (simp add: h0_def)
  show "''d0ng1e'' \<noteq> []" by simp
qed

text \<open>
  C6. When the store holds no \<open>Passive\<close> value after the override step of \<open>manager_init\<close> has
  returned, \<open>manager_init\<close> raises the exception "Passive must be set to continue", \<open>main\<close>
  raises it in turn, for any iterations that might have followed, and \<open>main\<close> has made
  only calls of the start-up: \<open>manager_thread\<close> was never entered.
\<close>

theorem passive_missing_is_fatal:
  "passive_override (init_defaults h (init_clear h w)) = (w1, None) \<Longrightarrow>
   params_get w1 ''Passive'' = None \<Longrightarrow>
     manager_init h w = (w1, Some (Exception ''Passive must be set to continue''))
     \<and> main h w ticks = (w1, Some (Raises (Exception ''Passive must be set to continue'')))
     \<and> emits_only init_event w w1
     \<and> count_list (trace (fst (main h w ticks))) (Info ''manager start'')
         = count_list (trace w) (Info ''manager start'')"
proof (intro conjI)
  assume po: "passive_override (init_defaults h (init_clear h w)) = (w1, None)"
    and np: "params_get w1 ''Passive'' = None"
  show init: "manager_init h w = (w1, Some (Exception ''Passive must be set to continue''))"
    using po np by (rule manager_init_passive_missing)
  show m: "main h w ticks = (w1, Some (Raises (Exception ''Passive must be set to continue'')))"
    by (simp add: main_def init)
  have "emits_only init_event w (fst (manager_init h w))" by (rule manager_init_emits)
  then show e: "emits_only init_event w w1" by (simp add: init)
  from emits_onlyD [OF e] init_events_quiet [of "emitted w w1"]
  have "trace w1 = trace w @ emitted w w1"
    and "count_list (emitted w w1) (Info ''manager start'') = 0" by simp_all
  then show "count_list (trace (fst (main h w ticks))) (Info ''manager start'')
         = count_list (trace w) (Info ''manager start'')"
    by (simp add: m)
qed

theorem passive_missing_is_fatal_witness:
  "main h0 w_no_passive [quiet_tick False] =
     (init_defaults h0 (init_clear h0 w_no_passive),
      Some (Raises (Exception ''Passive must be set to continue'')))"
proof -
  let ?w1 = "init_defaults h0 (init_clear h0 w_no_passive)"
  have "environ ?w1 ''PASSIVE'' = None"
    by (simp add: init_defaults_frame init_clear_frame w_no_passive_def)
  then have po: "passive_override ?w1 = (?w1, None)" by (rule passive_override_unset)
  have c: "params (init_clear h0 w_no_passive) ''Passive'' = None"
    by (rule init_clear_unset) (simp add: w_no_passive_def w0_def)
  have np: "params_get ?w1 ''Passive'' = None"
    using c
    by (simp add: params_get_def init_defaults_def seed_params put_bool_simps
                  default_params_no_passive)
  from passive_missing_is_fatal [OF po np] show ?thesis by simp
qed

text \<open>
  C8 (amended). With \<open>PREPAREONLY\<close> set and a start-up that succeeds, \<open>main\<close> returns after
  these calls: those of \<open>manager_init\<close>, the removal of the prebuilt file if there is one, the
  model switcher, and \<open>prepare\<close> on every managed process in enumeration order. The UI
  process is not started, the handler for the termination signal is not installed, and
  \<open>manager_thread\<close>, \<open>manager_cleanup\<close> and the power action are not run, whatever iterations
  might have followed.
\<close>

theorem prepare_only_stops_after_prepare:
  "environ w ''PREPAREONLY'' \<noteq> None \<Longrightarrow> manager_init h w = (w1, None) \<Longrightarrow>
     snd (main h w ticks) = Some Returns
     \<and> trace (fst (main h w ticks)) =
         trace w @ emitted w w1 @ (if prebuilt_exists h then [RemovePrebuilt] else [])
         @ [ModelSwitcher] @ map (\<lambda>p. Prepare (pname p)) (managed_processes w)
     \<and> list_all init_event (emitted w w1)
     \<and> managed_processes (fst (main h w ticks)) = map (prepare_proc h) (managed_processes w)"
  by (intro conjI prepare_only_run)

theorem prepare_only_stops_after_prepare_witness:
  "environ w_prepare ''PREPAREONLY'' \<noteq> None
   \<and> snd (manager_init h0 w_prepare) = None
   \<and> snd (main h0 w_prepare road_ticks) = Some Returns
   \<and> drop (length (trace (fst (manager_init h0 w_prepare)))) (trace (fst (main h0 w_prepare road_ticks)))
       = [RemovePrebuilt, ModelSwitcher, Prepare ''ui'', Prepare ''pandad'', Prepare ''uploader'']"
proof -
  have po: "environ w_prepare ''PREPAREONLY'' \<noteq> None" by (simp add: w_prepare_def)
  have init: "manager_init h0 w_prepare = (fst (manager_init h0 w_prepare), None)"
    using w_prepare_init by (simp add: prod_eq_iff)
  have t0: "trace w_prepare = []" by (simp add: w_prepare_def w0_def)
  from emits_onlyD [OF manager_init_emits [of w_prepare h0]]
  have t1: "trace (fst (manager_init h0 w_prepare)) = emitted w_prepare (fst (manager_init h0 w_prepare))"
    by (simp add: t0)
  have pe: "prebuilt_exists h0" by (simp add: h0_def)
  have mp: "map (\<lambda>p. Prepare (pname p)) (managed_processes w_prepare) =
              [Prepare ''ui'', Prepare ''pandad'', Prepare ''uploader'']"
    by (simp add: w_prepare_def w0_def)
  from prepare_only_stops_after_prepare [OF po init, of road_ticks]
  have r: "snd (main h0 w_prepare road_ticks) = Some Returns"
    and tr: "trace (fst (main h0 w_prepare road_ticks)) =
               trace (fst (manager_init h0 w_prepare))
               @ [RemovePrebuilt, ModelSwitcher, Prepare ''ui'', Prepare ''pandad'', Prepare ''uploader'']"
    by (simp_all add: t0 t1 [symmetric] pe mp)
  show ?thesis using po w_prepare_init r by (simp add: tr)
qed

text \<open>
  C8 as stated fails where it has the UI process started early: with \<open>PREPAREONLY\<close> set the
  run returns and \<open>start\<close> was never called on the UI process.
\<close>

theorem prepare_only_does_not_start_ui:
  "environ w_prepare ''PREPAREONLY'' \<noteq> None
   \<and> snd (main h0 w_prepare road_ticks) = Some Returns
   \<and> count_list (trace (fst (main h0 w_prepare road_ticks))) (Start ''ui'') = 0"
proof -
  have po: "environ w_prepare ''PREPAREONLY'' \<noteq> None" by (simp add: w_prepare_def)
  have init: "manager_init h0 w_prepare = (fst (manager_init h0 w_prepare), None)"
    using w_prepare_init by (simp add: prod_eq_iff)
  have t0: "trace w_prepare = []" by (simp add: w_prepare_def w0_def)
  note run1 = prepare_only_run(1) [OF po init, of road_ticks]
  note run2 = prepare_only_run(2) [OF po init, of road_ticks]
  note run3 = prepare_only_run(3) [OF po init]
  from init_events_quiet [OF run3, of "''ui''"]
  have "count_list (emitted w_prepare (fst (manager_init h0 w_prepare))) (Start ''ui'') = 0"
    by simp
  then have "count_list (trace (fst (main h0 w_prepare road_ticks))) (Start ''ui'') = 0"
    unfolding run2 by (simp add: t0 prepares_quiet)
  with po run1 show ?thesis by simp
qed

end
